theory Spec2Isabelle
  imports Complex_Main "HOL-Library.Word" "HOL-Library.Multiset"
begin

section \<open>JavaScript strings\<close>

text \<open>
  A JavaScript string is a sequence of UTF-16 code units. The letters \<open>ae\<close>, \<open>o-slash\<close> and
  \<open>a-ring\<close> of the source are the single code units 0xE6, 0xF8 and 0xE5 (upper case 0xC6,
  0xD8, 0xC5). \<open>ascii\<close> writes the ASCII part of a literal.
\<close>

type_synonym codeunit = "16 word"
type_synonym jsstring = "codeunit list"

definition ascii :: "string \<Rightarrow> jsstring" where
  "ascii s = map of_char s"

text \<open>
  \<^verbatim>\<open>s.startsWith(w)\<close>, \<^verbatim>\<open>s.includes(w)\<close> (named \<open>includes'\<close>) and
  \<^verbatim>\<open>s.substring(a, b)\<close> on non-negative arguments (\<open>substring\<close> clamps both to the
  length and swaps them when they are out of order).
\<close>

definition startsWith :: "jsstring \<Rightarrow> jsstring \<Rightarrow> bool" where
  "startsWith s w = (take (length w) s = w)"

fun includes' :: "jsstring \<Rightarrow> jsstring \<Rightarrow> bool" where
  "includes' [] w = (w = [])"
| "includes' (c # cs) w = (startsWith (c # cs) w \<or> includes' cs w)"

definition substring :: "jsstring \<Rightarrow> nat \<Rightarrow> nat \<Rightarrow> jsstring" where
  "substring s a b =
     (let a' = min a (length s); b' = min b (length s)
      in take (max a' b' - min a' b') (drop (min a' b') s))"

text \<open>
  \<^verbatim>\<open>s.match(/[class]+/g) || []\<close>: the maximal runs of code units of the class, from left
  to right. \<open>scanRuns\<close> carries the run read so far.
\<close>

fun scanRuns :: "(codeunit \<Rightarrow> bool) \<Rightarrow> jsstring \<Rightarrow> jsstring \<Rightarrow> jsstring list" where
  "scanRuns cls run [] = (if run = [] then [] else [run])"
| "scanRuns cls run (c # cs) =
     (if cls c then scanRuns cls (run @ [c]) cs
      else if run = [] then scanRuns cls [] cs
      else run # scanRuns cls [] cs)"

definition matchAll :: "(codeunit \<Rightarrow> bool) \<Rightarrow> jsstring \<Rightarrow> jsstring list" where
  "matchAll cls s = scanRuns cls [] s"

text \<open>
  The class of \<open>danishWordPattern\<close> in \<open>search\<close> and \<open>highlightText\<close> (the ranges a-z
  and A-Z and the six Danish letters, lower and upper case) and the class \<^verbatim>\<open>\w\<close> of
  \<^verbatim>\<open>/\w+/g\<close> (in \<open>getSearchContext\<close>), which is \<^verbatim>\<open>[A-Za-z0-9_]\<close>.
\<close>

definition danishWordPattern :: "codeunit \<Rightarrow> bool" where
  "danishWordPattern c =
     ((0x61 \<le> c \<and> c \<le> 0x7A) \<or> (0x41 \<le> c \<and> c \<le> 0x5A)
      \<or> c = 0xE6 \<or> c = 0xF8 \<or> c = 0xE5 \<or> c = 0xC6 \<or> c = 0xD8 \<or> c = 0xC5)"

definition wordChar :: "codeunit \<Rightarrow> bool" where
  "wordChar c =
     ((0x61 \<le> c \<and> c \<le> 0x7A) \<or> (0x41 \<le> c \<and> c \<le> 0x5A)
      \<or> (0x30 \<le> c \<and> c \<le> 0x39) \<or> c = 0x5F)"

text \<open>
  \<^verbatim>\<open>String.prototype.toLowerCase\<close> belongs to the host, not to the repository: every
  function that calls it takes it as its first argument. For concrete inputs
  \<open>toLowerCaseLatin1\<close> is the host's function on strings whose code units are below 0x100.
\<close>

definition lowerUnit :: "codeunit \<Rightarrow> codeunit" where
  "lowerUnit c =
     (if (0x41 \<le> c \<and> c \<le> 0x5A) \<or> (0xC0 \<le> c \<and> c \<le> 0xDE \<and> c \<noteq> 0xD7) then c + 0x20 else c)"

definition toLowerCaseLatin1 :: "jsstring \<Rightarrow> jsstring" where
  "toLowerCaseLatin1 s = map lowerUnit s"


section \<open>The search engine (js/app.js, ManualViewer)\<close>

subsection \<open>Data\<close>

text \<open>
  The search-index artifact: \<open>words\<close> maps an index word to its occurrences, \<open>pages\<close>
  lists the pages. The object \<open>words\<close> is kept as the list of its properties in the order
  \<^verbatim>\<open>Object.keys\<close> enumerates them; \<^verbatim>\<open>words[w]\<close> is the lookup \<open>map_of\<close>. Page
  identifiers are ordinals (array indices into \<open>pages\<close>).
\<close>

record occurrence =
  pageId :: nat
  context' :: "jsstring option"

record page_entry =
  chapter' :: jsstring
  page :: jsstring
  imagePath :: jsstring

record search_index =
  words :: "(jsstring \<times> occurrence list) list option"

record ManualViewer =
  searchIndex :: "search_index option"
  pages :: "page_entry list"

text \<open>An entry of \<open>pageMatches\<close>: the fields of the first occurrence seen for the page
  (\<^verbatim>\<open>...match\<close>) and the three accumulators.\<close>

record page_match = occurrence +
  score :: nat
  matchedWords :: "jsstring list"
  exactMatches :: nat

record search_result = page_match +
  displayTitle :: jsstring
  finalScore :: nat

subsection \<open>Matching policy of one (query word, index word) pair\<close>

text \<open>
  The \<^verbatim>\<open>if / else if\<close> chain of \<open>search\<close> (lines 444-467). \<open>None\<close> is the
  \<^verbatim>\<open>continue\<close> of the last branch. The test
  \<^verbatim>\<open>queryWord.length >= indexWord.length * 0.6\<close> is computed in doubles; the double
  0.6 lies below 3/5 by less than \<open>10^-16\<close>, so for lengths of strings the rounded product
  is at most \<open>3n/5\<close> and above the next smaller integer, and the comparison with an
  integer is the exact one, written here without fractions.
\<close>

definition scoreBonus :: "jsstring \<Rightarrow> jsstring \<Rightarrow> nat option" where
  "scoreBonus queryWord indexWord =
     (if indexWord = queryWord then Some 10
      else if startsWith indexWord queryWord \<and> 3 \<le> length queryWord then Some 6
      else if startsWith queryWord indexWord \<and> 3 \<le> length indexWord then Some 4
      else if 5 \<le> length queryWord \<and> 5 \<le> length indexWord
              \<and> includes' indexWord queryWord
              \<and> 6 * length indexWord \<le> 10 * length queryWord then Some 2
      else None)"

text \<open>
  The matching policy in the words of the specification: five numbered rules, each a
  condition and a weight, and "the first rule that applies wins".
\<close>

definition matching_policy :: "jsstring \<Rightarrow> jsstring \<Rightarrow> (bool \<times> nat option) list" where
  "matching_policy q w =
     [ (w = q, Some 10),
       (startsWith w q \<and> 3 \<le> length q, Some 6),
       (startsWith q w \<and> 3 \<le> length w, Some 4),
       (5 \<le> length q \<and> 5 \<le> length w \<and> includes' w q
          \<and> (0.6 :: real) * real (length w) \<le> real (length q), Some 2),
       (True, None) ]"

fun first_applicable :: "(bool \<times> nat option) list \<Rightarrow> nat option" where
  "first_applicable [] = None"
| "first_applicable ((applies, weight) # rules) =
     (if applies then weight else first_applicable rules)"

subsection \<open>Accumulation per page\<close>

text \<open>\<open>pageMatches\<close> is an object keyed by page id; it is kept as the list of its entries
  in insertion order.\<close>

type_synonym page_matches = "(nat \<times> page_match) list"

fun updateEntry :: "nat \<Rightarrow> (page_match \<Rightarrow> page_match) \<Rightarrow> page_matches \<Rightarrow> page_matches" where
  "updateEntry k f [] = []"
| "updateEntry k f ((k', e) # rest) =
     (if k' = k then (k', f e) # rest else (k', e) # updateEntry k f rest)"

definition newEntry :: "occurrence \<Rightarrow> page_match" where
  "newEntry m = \<lparr>pageId = pageId m, context' = context' m,
                 score = 0, matchedWords = [], exactMatches = 0\<rparr>"

definition bumpEntry :: "nat \<Rightarrow> jsstring \<Rightarrow> page_match \<Rightarrow> page_match" where
  "bumpEntry bonus indexWord e =
     e\<lparr>score := score e + bonus,
       matchedWords := matchedWords e @ [indexWord],
       exactMatches := (if 10 \<le> bonus then exactMatches e + 1 else exactMatches e)\<rparr>"

text \<open>The body of \<^verbatim>\<open>for (const match of matches)\<close> (lines 471-488).\<close>

definition addMatch :: "nat \<Rightarrow> jsstring \<Rightarrow> page_matches \<Rightarrow> occurrence \<Rightarrow> page_matches" where
  "addMatch bonus indexWord pageMatches m =
     updateEntry (pageId m) (bumpEntry bonus indexWord)
       (if map_of pageMatches (pageId m) = None
        then pageMatches @ [(pageId m, newEntry m)] else pageMatches)"

text \<open>The body of \<^verbatim>\<open>for (const indexWord of indexWords)\<close> (lines 443-489) and of
  \<^verbatim>\<open>for (const queryWord of queryWords)\<close> (lines 436-490).\<close>

definition matchIndexWord ::
  "(jsstring \<times> occurrence list) list \<Rightarrow> jsstring \<Rightarrow> page_matches \<Rightarrow> jsstring \<Rightarrow> page_matches" where
  "matchIndexWord ws queryWord pageMatches indexWord =
     (case scoreBonus queryWord indexWord of
        None \<Rightarrow> pageMatches
      | Some bonus \<Rightarrow>
          foldl (addMatch bonus indexWord) pageMatches
            (case map_of ws indexWord of None \<Rightarrow> [] | Some matches \<Rightarrow> matches))"

definition matchQueryWord ::
  "(jsstring \<times> occurrence list) list \<Rightarrow> page_matches \<Rightarrow> jsstring \<Rightarrow> page_matches" where
  "matchQueryWord ws pageMatches queryWord =
     (if length queryWord < 3 then pageMatches
      else foldl (matchIndexWord ws queryWord) pageMatches (map fst ws))"

definition collectMatches ::
  "(jsstring \<times> occurrence list) list \<Rightarrow> jsstring list \<Rightarrow> page_matches" where
  "collectMatches ws queryWords = foldl (matchQueryWord ws) [] queryWords"

subsection \<open>Context extraction (getSearchContext, lines 519-572)\<close>

definition noContext :: jsstring where
  "noContext = ascii ''Ingen kontekst tilg'' @ [0xE6] @ ascii ''ngelig''"

text \<open>The inner loop \<^verbatim>\<open>for (const word of queryWords) if (window.includes(word)) score++\<close>.\<close>

fun windowScore :: "jsstring list \<Rightarrow> jsstring \<Rightarrow> nat" where
  "windowScore [] window = 0"
| "windowScore (word # rest) window =
     (if includes' window word then windowScore rest window + 1 else windowScore rest window)"

text \<open>
  The first pass \<^verbatim>\<open>for (let i = 0; i <= text.length - 100; i += 10)\<close>, from offset
  \<open>i\<close> with the best offset and score so far. The bound is a signed comparison in the
  source; \<open>i + 100 \<le> length text\<close> says the same without a negative number. The window is cut
  from the lower-cased text, the bound is the length of the text itself.
\<close>

function bestWindow ::
  "jsstring list \<Rightarrow> jsstring \<Rightarrow> nat \<Rightarrow> nat \<Rightarrow> nat \<Rightarrow> nat \<Rightarrow> nat \<times> nat" where
  "bestWindow queryWords textLower len i bestIndex bestScore =
     (if i + 100 \<le> len then
        (let window = substring textLower i (i + 100);
             score = windowScore queryWords window
         in if bestScore < score
            then bestWindow queryWords textLower len (i + 10) i score
            else bestWindow queryWords textLower len (i + 10) bestIndex bestScore)
      else (bestIndex, bestScore))"
  by pat_completeness auto
termination
  by (relation "measure (\<lambda>(queryWords, textLower, len, i, bestIndex, bestScore). len + 1 - i)") auto

declare bestWindow.simps [simp del]

text \<open>
  The second pass (lines 546-562): the first window in which the first three code units
  (or fewer, for a shorter word) of some query word occur in \<^verbatim>\<open>window.substring(j)\<close> for
  some \<open>j < window.length - 2\<close>. The two inner loops only set the flag and break, so they
  are the two \<open>list_ex\<close>.
\<close>

definition partialHit :: "jsstring list \<Rightarrow> jsstring \<Rightarrow> bool" where
  "partialHit queryWords window =
     list_ex (\<lambda>word.
        list_ex (\<lambda>j. includes' (drop j window) (substring word 0 (min 3 (length word))))
                [0 ..< length window - 2])
       queryWords"

function partialWindow :: "jsstring list \<Rightarrow> jsstring \<Rightarrow> nat \<Rightarrow> nat \<Rightarrow> nat option" where
  "partialWindow queryWords textLower len i =
     (if i + 100 \<le> len then
        (if partialHit queryWords (substring textLower i (i + 100)) then Some i
         else partialWindow queryWords textLower len (i + 10))
      else None)"
  by pat_completeness auto
termination
  by (relation "measure (\<lambda>(queryWords, textLower, len, i). len + 1 - i)") auto

declare partialWindow.simps [simp del]

definition getSearchContext :: "(jsstring \<Rightarrow> jsstring) \<Rightarrow> jsstring \<Rightarrow> jsstring \<Rightarrow> jsstring" where
  "getSearchContext toLowerCase text query =
     (if text = [] then noContext
      else
        let queryWords = matchAll wordChar (toLowerCase query);
            textLower = toLowerCase text;
            (bestIndex0, bestScore) = bestWindow queryWords textLower (length text) 0 0 0;
            bestIndex = (if bestScore = 0
                         then (case partialWindow queryWords textLower (length text) 0 of
                                 Some i \<Rightarrow> i | None \<Rightarrow> bestIndex0)
                         else bestIndex0);
            start = bestIndex - 25;
            end' = min (length text) (bestIndex + 125);
            context0 = substring text start end';
            context1 = (if 0 < start then ascii ''...'' @ context0 else context0)
        in if end' < length text then context1 @ ascii ''...'' else context1)"

subsection \<open>Building, sorting and cutting the result list (lines 492-517)\<close>

text \<open>
  \<^verbatim>\<open>Object.keys(pageMatches)\<close>: the keys that are array indices (below \<open>2^32 - 1\<close>) in
  ascending order, then the other keys in insertion order. A key is the decimal string of
  the page id and \<^verbatim>\<open>parseInt\<close> reads the same number back; the model keeps the number.
\<close>

definition objectKeys :: "nat list \<Rightarrow> nat list" where
  "objectKeys ks =
     sort (filter (\<lambda>k. k < 4294967295) ks) @ filter (\<lambda>k. \<not> k < 4294967295) ks"

text \<open>\<^verbatim>\<open>this.pages[pageId]\<close>: \<open>undefined\<close> outside the array.\<close>

definition pageAt :: "page_entry list \<Rightarrow> nat \<Rightarrow> page_entry option" where
  "pageAt ps i = (if i < length ps then Some (ps ! i) else None)"

text \<open>
  The body of \<^verbatim>\<open>for (const pageId of Object.keys(pageMatches))\<close> (lines 493-510): no
  result, or the one result pushed for the key; \<open>collectResults\<close> is the array
  \<open>results\<close> after the loop.
\<close>

definition toResult ::
  "(jsstring \<Rightarrow> jsstring) \<Rightarrow> page_entry list \<Rightarrow> jsstring \<Rightarrow> page_matches \<Rightarrow> nat
     \<Rightarrow> search_result list" where
  "toResult toLowerCase ps query pageMatches key =
     (case map_of pageMatches key of
        None \<Rightarrow> []
      | Some m \<Rightarrow>
         (case pageAt ps key of
            None \<Rightarrow> []
          | Some pg \<Rightarrow>
              if 4 \<le> score m then
                [\<lparr>pageId = key,
                  context' = Some (getSearchContext toLowerCase
                                     (case context' m of None \<Rightarrow> [] | Some c \<Rightarrow> c) query),
                  score = score m, matchedWords = matchedWords m,
                  exactMatches = exactMatches m,
                  displayTitle = ascii ''Side '' @ chapter' pg @ ascii ''-'' @ page pg,
                  finalScore = score m + exactMatches m * 5\<rparr>]
              else []))"

definition collectResults ::
  "(jsstring \<Rightarrow> jsstring) \<Rightarrow> page_entry list \<Rightarrow> jsstring \<Rightarrow> page_matches \<Rightarrow> search_result list" where
  "collectResults toLowerCase ps query pageMatches =
     concat (map (toResult toLowerCase ps query pageMatches) (objectKeys (map fst pageMatches)))"

text \<open>
  \<^verbatim>\<open>Array.prototype.sort(cmp)\<close> is a stable sort: \<open>a\<close> comes before \<open>b\<close> when
  \<open>cmp a b < 0\<close>, and elements that compare equal keep their order. Here it is insertion
  from the right, and \<open>byFinalScore\<close> is the comparator of line 514.
\<close>

fun insertBy :: "('a \<Rightarrow> 'a \<Rightarrow> int) \<Rightarrow> 'a \<Rightarrow> 'a list \<Rightarrow> 'a list" where
  "insertBy cmp x [] = [x]"
| "insertBy cmp x (y # ys) = (if cmp x y \<le> 0 then x # y # ys else y # insertBy cmp x ys)"

definition jsSort :: "('a \<Rightarrow> 'a \<Rightarrow> int) \<Rightarrow> 'a list \<Rightarrow> 'a list" where
  "jsSort cmp xs = foldr (insertBy cmp) xs []"

definition byFinalScore :: "search_result \<Rightarrow> search_result \<Rightarrow> int" where
  "byFinalScore a b = int (finalScore b) - int (finalScore a)"

definition search :: "(jsstring \<Rightarrow> jsstring) \<Rightarrow> ManualViewer \<Rightarrow> jsstring \<Rightarrow> search_result list" where
  "search toLowerCase viewer query =
     (case searchIndex viewer of
        None \<Rightarrow> []
      | Some idx \<Rightarrow>
         (case words idx of
            None \<Rightarrow> []
          | Some ws \<Rightarrow>
              let queryWords = matchAll danishWordPattern (toLowerCase query);
                  pageMatches = collectMatches ws queryWords;
                  results = collectResults toLowerCase (pages viewer) query pageMatches
              in take 20 (filter (\<lambda>result. 6 \<le> finalScore result)
                            (jsSort byFinalScore results))))"

subsection \<open>What the specification says of the accumulated score and of a window\<close>

text \<open>
  The score and the exact-match count that \<open>pageMatches\<close> holds for a page (0 when the
  page has no entry), the weight the policy gives a pair, and the (query word, index word,
  occurrence) triples that \<open>search\<close> goes through: every query word of at least three code
  units, with every index word, with every occurrence of that index word.
\<close>

definition pageScore :: "page_matches \<Rightarrow> nat \<Rightarrow> nat" where
  "pageScore pageMatches p = (case map_of pageMatches p of None \<Rightarrow> 0 | Some e \<Rightarrow> score e)"

definition pageExact :: "page_matches \<Rightarrow> nat \<Rightarrow> nat" where
  "pageExact pageMatches p =
     (case map_of pageMatches p of None \<Rightarrow> 0 | Some e \<Rightarrow> exactMatches e)"

definition pairWeight :: "jsstring \<Rightarrow> jsstring \<Rightarrow> nat" where
  "pairWeight q w = (case first_applicable (matching_policy q w) of None \<Rightarrow> 0 | Some b \<Rightarrow> b)"

definition consideredTriples ::
  "(jsstring \<times> occurrence list) list \<Rightarrow> jsstring list
     \<Rightarrow> (jsstring \<times> jsstring \<times> occurrence) list" where
  "consideredTriples ws queryWords =
     concat (map (\<lambda>q. if length q < 3 then []
                       else concat (map (\<lambda>w. map (\<lambda>m. (q, w, m))
                                             (case map_of ws w of None \<Rightarrow> [] | Some ms \<Rightarrow> ms))
                                        (map fst ws)))
                 queryWords)"

text \<open>
  The coverage score in the words of the specification: the number of distinct query
  tokens found as substrings within the window.
\<close>

definition coverageScore :: "jsstring list \<Rightarrow> jsstring \<Rightarrow> nat" where
  "coverageScore tokens window = length (remdups (filter (\<lambda>t. includes' window t) tokens))"


section \<open>The cache controller (sw.js)\<close>

subsection \<open>Cache storage\<close>

text \<open>
  The browser's \<^verbatim>\<open>caches\<close>: named caches in creation order (the order of
  \<^verbatim>\<open>caches.keys()\<close>), each a list of (request URL, response). A response is either what
  was fetched for a URL or the serialised metadata record that \<open>cacheManual\<close> stores.
  \<open>cachesOpen\<close> creates a missing cache, \<open>cachesDelete\<close> says whether the cache existed,
  \<open>cacheAddAll\<close> stores all responses or, when one fetch fails, none (\<open>None\<close> is the
  rejected promise), \<open>cachePut\<close> replaces an entry with the same URL.
\<close>

record metadata =
  id' :: jsstring
  cachedAt :: nat
  version :: "jsstring option"
  fileCount :: nat

datatype body = Fetched jsstring | MetadataJson metadata

type_synonym cache = "(jsstring \<times> body) list"
type_synonym cache_storage = "(jsstring \<times> cache) list"

definition cachesOpen :: "jsstring \<Rightarrow> cache_storage \<Rightarrow> cache_storage" where
  "cachesOpen name cs = (if map_of cs name = None then cs @ [(name, [])] else cs)"

definition cachesDelete :: "jsstring \<Rightarrow> cache_storage \<Rightarrow> bool \<times> cache_storage" where
  "cachesDelete name cs = (map_of cs name \<noteq> None, filter (\<lambda>entry. fst entry \<noteq> name) cs)"

fun putEntry :: "jsstring \<Rightarrow> body \<Rightarrow> cache \<Rightarrow> cache" where
  "putEntry url b [] = [(url, b)]"
| "putEntry url b ((u, b') # rest) =
     (if u = url then (u, b) # rest else (u, b') # putEntry url b rest)"

fun cachePut :: "jsstring \<Rightarrow> jsstring \<Rightarrow> body \<Rightarrow> cache_storage \<Rightarrow> cache_storage" where
  "cachePut name url b [] = []"
| "cachePut name url b ((n, c) # rest) =
     (if n = name then (n, putEntry url b c) # rest else (n, c) # cachePut name url b rest)"

definition cacheAddAll ::
  "(jsstring \<Rightarrow> bool) \<Rightarrow> jsstring \<Rightarrow> jsstring list \<Rightarrow> cache_storage \<Rightarrow> cache_storage option" where
  "cacheAddAll fetchOk name urls cs =
     (if list_all fetchOk urls
      then Some (foldl (\<lambda>cs' u. cachePut name u (Fetched u) cs') cs urls)
      else None)"

text \<open>\<^verbatim>\<open>s.replace(pattern, replacement)\<close> with a string pattern: the first occurrence.\<close>

fun replaceFirst :: "jsstring \<Rightarrow> jsstring \<Rightarrow> jsstring \<Rightarrow> jsstring" where
  "replaceFirst pat rep [] = (if pat = [] then rep else [])"
| "replaceFirst pat rep (c # cs) =
     (if startsWith (c # cs) pat then rep @ drop (length pat) (c # cs)
      else c # replaceFirst pat rep cs)"

subsection \<open>Constants, environment, messages\<close>

definition CACHE_VERSION :: jsstring where
  "CACHE_VERSION = ascii ''1.0.2''"

definition CORE_CACHE_NAME :: jsstring where
  "CORE_CACHE_NAME = ascii ''m113-core-'' @ CACHE_VERSION"

definition CORE_FILES :: "jsstring list" where
  "CORE_FILES = map ascii [''./'', ''./index.html'', ''./css/manual-styles.css'', ''./js/app.js'',
     ''./js/offline-manager.js'', ''./favicon.svg'', ''./favicon-16x16.svg'', ''./manifest.json'']"

text \<open>
  \<^verbatim>\<open>MANUAL_FILES[manualId] || []\<close>. \<open>MANUAL_FILES\<close> is a plain object, so the name of
  a property of \<^verbatim>\<open>Object.prototype\<close> looks up that inherited function or object; it is
  not a list of files, and \<^verbatim>\<open>cache.addAll\<close> throws on it (\<open>None\<close>).
\<close>

definition inheritedKeys :: "jsstring list" where
  "inheritedKeys = map ascii [''constructor'', ''hasOwnProperty'', ''isPrototypeOf'',
     ''propertyIsEnumerable'', ''toLocaleString'', ''toString'', ''valueOf'', ''__proto__'',
     ''__defineGetter__'', ''__defineSetter__'', ''__lookupGetter__'', ''__lookupSetter__'']"

definition MANUAL_FILES :: "jsstring \<Rightarrow> jsstring list option" where
  "MANUAL_FILES manualId =
     (if manualId = ascii ''HRN113-001'' then Some (map ascii [''./HRN113-001.html'',
         ''./data/HRN113-001-search-index.json'', ''./data/HRN113-001-toc.json''])
      else if manualId = ascii ''HRN113-002'' then Some (map ascii [''./HRN113-002.html'',
         ''./data/HRN113-002-search-index.json'', ''./data/HRN113-002-toc.json''])
      else if manualId = ascii ''HRN737-012'' then Some (map ascii [''./HRN737-012.html'',
         ''./data/HRN737-012-search-index.json'', ''./data/HRN737-012-toc.json''])
      else if manualId = ascii ''HRN737-018'' then Some (map ascii [''./HRN737-018.html'',
         ''./data/HRN737-018-search-index.json'', ''./data/HRN737-018-toc.json''])
      else if manualId \<in> set inheritedKeys then None
      else Some [])"

text \<open>
  What the worker reads from outside while it handles one event: which URLs can be
  fetched with an OK status, the clock, and the outcome of fetching the version descriptor.
\<close>

datatype version_fetch = Unreachable | NotOk | ServerVersion jsstring

record env =
  fetchOk :: "jsstring \<Rightarrow> bool"
  now :: nat
  versionJson :: version_fetch

text \<open>
  A request as the message handler destructures it, and whether a reply port came with
  it. Only \<open>cache-manual\<close> and \<open>remove-manual\<close> read \<open>manualId\<close>, only \<open>cache-manual\<close> reads
  \<open>files\<close> (\<open>None\<close> when the field is missing). The replies are the objects posted to the
  port; \<open>success\<close> is their field of that name (missing in the unknown-action reply).
\<close>

record message =
  action :: jsstring
  manualId :: jsstring
  files :: "jsstring list option"
  hasPort :: bool

datatype reply =
    CacheManualOk jsstring nat
  | Failure "jsstring option"
  | Removed bool jsstring
  | Manuals "metadata list"
  | VersionInfo bool "jsstring option"
  | UnknownAction jsstring

fun success :: "reply \<Rightarrow> bool" where
  "success (CacheManualOk manual n) = True"
| "success (Failure manual) = False"
| "success (Removed deleted manual) = deleted"
| "success (Manuals ms) = True"
| "success (VersionInfo hasUpdate latest) = True"
| "success (UnknownAction a) = False"

subsection \<open>The handlers (lines 158-296)\<close>

definition cacheManual ::
  "env \<Rightarrow> jsstring \<Rightarrow> jsstring list option \<Rightarrow> cache_storage \<Rightarrow> cache_storage \<times> reply" where
  "cacheManual e manual fs cs =
     (let cacheName = ascii ''manual-'' @ manual;
          cs1 = cachesOpen cacheName cs
      in case MANUAL_FILES manual of
           None \<Rightarrow> (cs1, Failure (Some manual))
         | Some coreFiles \<Rightarrow>
            (case cacheAddAll (fetchOk e) cacheName coreFiles cs1 of
               None \<Rightarrow> (cs1, Failure (Some manual))
             | Some cs2 \<Rightarrow>
                (case (case fs of
                         None \<Rightarrow> Some cs2
                       | Some fl \<Rightarrow> if 0 < length fl
                                   then cacheAddAll (fetchOk e) cacheName fl cs2
                                   else Some cs2) of
                   None \<Rightarrow> (cs2, Failure (Some manual))
                 | Some cs3 \<Rightarrow>
                     let md = \<lparr>id' = manual, cachedAt = now e, version = Some CACHE_VERSION,
                               fileCount = length coreFiles
                                           + (case fs of None \<Rightarrow> 0 | Some fl \<Rightarrow> length fl)\<rparr>
                     in (cachePut cacheName (cacheName @ ascii ''-metadata'') (MetadataJson md) cs3,
                         CacheManualOk manual (fileCount md)))))"

definition removeManual :: "jsstring \<Rightarrow> cache_storage \<Rightarrow> cache_storage \<times> reply" where
  "removeManual manual cs =
     (let (deleted, cs') = cachesDelete (ascii ''manual-'' @ manual) cs
      in (cs', Removed deleted manual))"

text \<open>
  \<open>getOfflineManuals\<close>: one record per cache whose name starts with \<open>manual-\<close>. A cache
  without a metadata entry is reported with the zero-filled record of line 257. Reading a
  metadata entry that is not the serialised record makes \<^verbatim>\<open>json()\<close> throw, and the
  handler answers with the failure reply.
\<close>

fun readMetadata :: "cache_storage \<Rightarrow> jsstring list \<Rightarrow> metadata list option" where
  "readMetadata cs [] = Some []"
| "readMetadata cs (cacheName # names) =
     (let manual = replaceFirst (ascii ''manual-'') [] cacheName;
          c = (case map_of cs cacheName of None \<Rightarrow> [] | Some c' \<Rightarrow> c')
      in case (case map_of c (cacheName @ ascii ''-metadata'') of
                 None \<Rightarrow> Some \<lparr>id' = manual, cachedAt = 0, version = None, fileCount = 0\<rparr>
               | Some (MetadataJson md) \<Rightarrow> Some md
               | Some (Fetched u) \<Rightarrow> None) of
           None \<Rightarrow> None
         | Some md \<Rightarrow> map_option ((#) md) (readMetadata cs names))"

definition getOfflineManuals :: "cache_storage \<Rightarrow> reply" where
  "getOfflineManuals cs =
     (let cacheNames = map fst cs;
          manualCaches = filter (\<lambda>name. startsWith name (ascii ''manual-'')) cacheNames
      in case readMetadata cs manualCaches of
           None \<Rightarrow> Failure None
         | Some offlineManuals \<Rightarrow> Manuals offlineManuals)"

definition checkForUpdates :: "env \<Rightarrow> reply" where
  "checkForUpdates e =
     (case versionJson e of
        Unreachable \<Rightarrow> Failure None
      | NotOk \<Rightarrow> VersionInfo False None
      | ServerVersion v \<Rightarrow> VersionInfo (v \<noteq> CACHE_VERSION) (Some v))"

text \<open>
  The message handler: the new storage, the reply posted (none when the request came
  without a port), and whether \<^verbatim>\<open>self.skipWaiting()\<close> was called.
\<close>

definition toPort :: "message \<Rightarrow> reply \<Rightarrow> reply option" where
  "toPort msg r = (if hasPort msg then Some r else None)"

definition handleMessage ::
  "env \<Rightarrow> message \<Rightarrow> cache_storage \<Rightarrow> cache_storage \<times> reply option \<times> bool" where
  "handleMessage e msg cs =
     (if action msg = ascii ''cache-manual'' then
        (let (cs', r) = cacheManual e (manualId msg) (files msg) cs in (cs', toPort msg r, False))
      else if action msg = ascii ''remove-manual'' then
        (let (cs', r) = removeManual (manualId msg) cs in (cs', toPort msg r, False))
      else if action msg = ascii ''check-version'' then
        (cs, toPort msg (checkForUpdates e), False)
      else if action msg = ascii ''get-offline-manuals'' then
        (cs, toPort msg (getOfflineManuals cs), False)
      else if action msg = ascii ''skipWaiting'' then
        (cs, None, True)
      else
        (cs, toPort msg (UnknownAction (action msg)), False))"

text \<open>The install and activate handlers (lines 47-81), as far as they touch the caches.\<close>

definition install :: "env \<Rightarrow> cache_storage \<Rightarrow> cache_storage" where
  "install e cs =
     (let cs1 = cachesOpen CORE_CACHE_NAME cs
      in case cacheAddAll (fetchOk e) CORE_CACHE_NAME CORE_FILES cs1 of
           None \<Rightarrow> cs1 | Some cs2 \<Rightarrow> cs2)"

definition activate :: "cache_storage \<Rightarrow> cache_storage" where
  "activate cs =
     filter (\<lambda>entry. \<not> (fst entry \<noteq> CORE_CACHE_NAME
                          \<and> \<not> startsWith (fst entry) (ascii ''manual-''))) cs"

text \<open>
  Everything that writes to the cache storage: the worker's three kinds of events, each
  handled as a whole, and \<open>performUpdate\<close> of the foreground, which deletes every cache
  (offline-manager.js, lines 621-624). The fetch handler writes nothing. The storage starts
  empty; \<open>run\<close> is the storage after a sequence of events.
\<close>

datatype event = Install env | Activate | Message env message | ClearAllCaches

fun step :: "cache_storage \<Rightarrow> event \<Rightarrow> cache_storage" where
  "step cs (Install e) = install e cs"
| "step cs Activate = activate cs"
| "step cs (Message e msg) = fst (handleMessage e msg cs)"
| "step cs ClearAllCaches = []"

definition run :: "event list \<Rightarrow> cache_storage" where
  "run events = foldl step [] events"

text \<open>
  The manuals that \<open>get-offline-manuals\<close> reports, and the invariant of the
  specification: a non-empty cache tagged with a metadata entry exists for the manual.
\<close>

definition reportedOffline :: "cache_storage \<Rightarrow> jsstring list" where
  "reportedOffline cs = (case getOfflineManuals cs of Manuals ms \<Rightarrow> map id' ms | _ \<Rightarrow> [])"

definition taggedCache :: "cache_storage \<Rightarrow> jsstring \<Rightarrow> bool" where
  "taggedCache cs manual =
     (case map_of cs (ascii ''manual-'' @ manual) of
        None \<Rightarrow> False
      | Some c \<Rightarrow>
          c \<noteq> [] \<and>
          (case map_of c (ascii ''manual-'' @ manual @ ascii ''-metadata'') of
             Some (MetadataJson md) \<Rightarrow> True
           | _ \<Rightarrow> False))"

text \<open>
  The invariant behind the report: in a cache whose name starts with \<open>manual-\<close>, the
  metadata key holds nothing or the record of the manual the cache is named after.
\<close>

definition metadataEntryOk :: "cache_storage \<Rightarrow> jsstring \<Rightarrow> bool" where
  "metadataEntryOk cs name =
     (case map_of cs name of
        None \<Rightarrow> True
      | Some c \<Rightarrow>
          (case map_of c (name @ ascii ''-metadata'') of
             None \<Rightarrow> True
           | Some (MetadataJson md) \<Rightarrow> id' md = drop 7 name
           | Some (Fetched u) \<Rightarrow> False))"

definition consistent :: "cache_storage \<Rightarrow> bool" where
  "consistent cs = (\<forall>name. startsWith name (ascii ''manual-'') \<longrightarrow> metadataEntryOk cs name)"


section \<open>The offline coordinator (js/offline-manager.js)\<close>

subsection \<open>State\<close>

text \<open>
  A JavaScript \<open>Set\<close> of strings is kept as the list of its elements in insertion order.
\<close>

definition setAdd :: "jsstring \<Rightarrow> jsstring list \<Rightarrow> jsstring list" where
  "setAdd x s = (if x \<in> set s then s else s @ [x])"

definition setDelete :: "jsstring \<Rightarrow> jsstring list \<Rightarrow> jsstring list" where
  "setDelete x s = removeAll x s"

definition newSet :: "jsstring list \<Rightarrow> jsstring list" where
  "newSet xs = foldl (\<lambda>s x. setAdd x s) [] xs"

text \<open>
  The item \<open>offlineManuals\<close> of \<open>localStorage\<close>: missing, a text that
  \<^verbatim>\<open>JSON.parse\<close> or \<^verbatim>\<open>new Set\<close> rejects, or the serialised array of manual ids.
  The registration says whether an active and a waiting worker exist. The fields
  \<open>posted\<close>, \<open>notifications\<close> and \<open>manualUI\<close> record, in order, the messages posted to the
  active worker, the notifications shown and the calls of \<open>updateManualUI\<close>.
\<close>

datatype stored_item = Absent | Unparsable | ManualsArray "jsstring list"

datatype ui_status = Downloading | Offline | Online

datatype notice = NowOffline jsstring nat | DownloadFailed jsstring | OfflineUnavailable

record registration =
  active :: bool
  waiting :: bool

record OfflineManager =
  swRegistration :: "registration option"
  serviceWorkerFailed :: bool
  offlineManuals :: "jsstring list"
  pendingDownloads :: "jsstring list"
  localStorage :: stored_item
  posted :: "message list"
  notifications :: "notice list"
  manualUI :: "(jsstring \<times> ui_status) list"

text \<open>The state after the constructor and the registration part of \<open>init\<close>.\<close>

definition constructor :: "stored_item \<Rightarrow> registration option \<Rightarrow> bool \<Rightarrow> OfflineManager" where
  "constructor stored reg failed =
     \<lparr>swRegistration = reg, serviceWorkerFailed = failed, offlineManuals = [],
      pendingDownloads = [], localStorage = stored, posted = [], notifications = [],
      manualUI = []\<rparr>"

subsection \<open>Talking to the worker (sendMessageToSW, lines 371-407)\<close>

text \<open>
  What happens to one request once a registration exists: the worker never becomes active
  and nothing is posted (the promise rejects with "Service worker not available"), the
  message is posted and no reply arrives within 30 seconds (it rejects with a timeout),
  or the message is posted and the worker replies. Without a registration the promise
  rejects before anything is posted. \<open>None\<close> is the rejected promise.
\<close>

datatype sw_exchange = NotAvailable | Timeout | Replied reply

definition sendMessageToSW ::
  "OfflineManager \<Rightarrow> jsstring \<Rightarrow> jsstring \<Rightarrow> jsstring list option \<Rightarrow> sw_exchange
     \<Rightarrow> reply option \<times> OfflineManager" where
  "sendMessageToSW st act manual fs x =
     (let msg = \<lparr>action = act, manualId = manual, files = fs, hasPort = True\<rparr>
      in if swRegistration st = None then (None, st)
         else case x of
                NotAvailable \<Rightarrow> (None, st)
              | Timeout \<Rightarrow> (None, st\<lparr>posted := posted st @ [msg]\<rparr>)
              | Replied r \<Rightarrow> (Some r, st\<lparr>posted := posted st @ [msg]\<rparr>))"

text \<open>\<open>saveOfflineManuals\<close> (lines 439-441). \<^verbatim>\<open>localStorage.setItem\<close> throws when the
  storage cannot be written (quota, private browsing: lines 685 and 704 of the source
  rely on it); \<open>None\<close> is that exception.\<close>

definition saveOfflineManuals :: "bool \<Rightarrow> OfflineManager \<Rightarrow> OfflineManager option" where
  "saveOfflineManuals writable st =
     (if writable then Some (st\<lparr>localStorage := ManualsArray (offlineManuals st)\<rparr>) else None)"

subsection \<open>downloadManual (lines 131-198)\<close>

text \<open>
  An \<^verbatim>\<open>async\<close> function runs up to its first \<^verbatim>\<open>await\<close> without interruption;
  other calls may run while it waits. \<open>downloadManual_enter\<close> is the part before the first
  \<^verbatim>\<open>await\<close>: it returns false at once (\<open>Some False\<close>) or marks the manual pending and
  suspends (\<open>None\<close>). \<open>downloadManual_resume\<close> is the rest, given the file list that
  \<open>getManualFiles\<close> produced, the fate of the request to the worker and whether the local
  storage can be written: \<open>Inl\<close> is the state in which an exception reaches the
  \<^verbatim>\<open>catch\<close> block, and the \<^verbatim>\<open>finally\<close> block runs last. \<open>downloadManual\<close> is a call
  that nothing interrupts.
\<close>

definition downloadManual_enter :: "OfflineManager \<Rightarrow> jsstring \<Rightarrow> bool option \<times> OfflineManager" where
  "downloadManual_enter st manual =
     (if manual \<in> set (pendingDownloads st) then (Some False, st)
      else if serviceWorkerFailed st \<or> swRegistration st = None then
        (Some False, st\<lparr>notifications := notifications st @ [OfflineUnavailable]\<rparr>)
      else
        (None, st\<lparr>pendingDownloads := setAdd manual (pendingDownloads st),
                  manualUI := manualUI st @ [(manual, Downloading)]\<rparr>))"

definition downloadManual_resume ::
  "OfflineManager \<Rightarrow> jsstring \<Rightarrow> jsstring list \<Rightarrow> sw_exchange \<Rightarrow> bool \<Rightarrow> bool \<times> OfflineManager" where
  "downloadManual_resume st manual fl x writable =
     (let (result, st1) = sendMessageToSW st (ascii ''cache-manual'') manual (Some fl) x;
          attempt =
            (case result of
               None \<Rightarrow> Inl st1
             | Some r \<Rightarrow>
                 if success r then
                   (let st2 = st1\<lparr>offlineManuals := setAdd manual (offlineManuals st1)\<rparr>
                    in case saveOfflineManuals writable st2 of
                         None \<Rightarrow> Inl st2
                       | Some st3 \<Rightarrow>
                           Inr (st3\<lparr>manualUI := manualUI st3 @ [(manual, Offline)],
                                    notifications := notifications st3 @
                                      [NowOffline manual
                                         (case r of CacheManualOk m n \<Rightarrow> n | _ \<Rightarrow> 0)]\<rparr>))
                 else Inl st1);
          (returned, st4) =
            (case attempt of
               Inr st' \<Rightarrow> (True, st')
             | Inl st' \<Rightarrow>
                 (False, st'\<lparr>notifications := notifications st' @ [DownloadFailed manual],
                            manualUI := manualUI st' @ [(manual, Online)]\<rparr>))
      in (returned, st4\<lparr>pendingDownloads := setDelete manual (pendingDownloads st4)\<rparr>))"

definition downloadManual ::
  "OfflineManager \<Rightarrow> jsstring \<Rightarrow> jsstring list \<Rightarrow> sw_exchange \<Rightarrow> bool \<Rightarrow> bool \<times> OfflineManager" where
  "downloadManual st manual fl x writable =
     (case downloadManual_enter st manual of
        (Some b, st') \<Rightarrow> (b, st')
      | (None, st') \<Rightarrow> downloadManual_resume st' manual fl x writable)"

subsection \<open>loadOfflineManuals (lines 409-436) and performUpdate (lines 597-615)\<close>

text \<open>
  A reply with \<open>success\<close> but without \<open>manuals\<close> makes \<^verbatim>\<open>result.manuals.map\<close> throw
  inside the \<^verbatim>\<open>try\<close>; like a rejected request and a failure reply it leaves the state as
  it is. So does an exception of \<open>saveOfflineManuals\<close>, after the set has been replaced.
\<close>

definition loadOfflineManuals :: "OfflineManager \<Rightarrow> sw_exchange \<Rightarrow> bool \<Rightarrow> OfflineManager" where
  "loadOfflineManuals st x writable =
     (let st1 = (case localStorage st of
                   ManualsArray manuals \<Rightarrow> st\<lparr>offlineManuals := newSet manuals\<rparr>
                 | _ \<Rightarrow> st);
          (result, st2) = sendMessageToSW st1 (ascii ''get-offline-manuals'') [] None x
      in case result of
           Some (Manuals ms) \<Rightarrow>
             (let st3 = st2\<lparr>offlineManuals := newSet (map id' ms)\<rparr>
              in case saveOfflineManuals writable st3 of None \<Rightarrow> st3 | Some st4 \<Rightarrow> st4)
         | _ \<Rightarrow> st2)"

text \<open>
  The messages that \<open>performUpdate\<close> posts to the waiting worker; \<open>updated\<close> says that
  \<^verbatim>\<open>swRegistration.update()\<close> did not throw.
\<close>

definition performUpdate :: "OfflineManager \<Rightarrow> bool \<Rightarrow> message list" where
  "performUpdate st updated =
     (case swRegistration st of
        None \<Rightarrow> []
      | Some reg \<Rightarrow>
          if active reg \<and> \<not> serviceWorkerFailed st then
            (if updated then
               (if waiting reg
                then [\<lparr>action = ascii ''skipWaiting'', manualId = [], files = None, hasPort = False\<rparr>]
                else [])
             else [])
          else [])"


section \<open>Concrete inputs\<close>

text \<open>The example of the specification: the index word, the query, the stored context,
  and a viewer whose index holds that one word on page 1 of two pages.\<close>

definition udstodning :: jsstring where
  "udstodning = ascii ''udst'' @ [0xF8] @ ascii ''dning''"

definition udstodningsror :: jsstring where
  "udstodningsror = ascii ''udst'' @ [0xF8] @ ascii ''dningsr'' @ [0xF8] @ ascii ''r''"

definition exampleContext :: jsstring where
  "exampleContext = ascii ''...udst'' @ [0xF8] @ ascii ''dningsr'' @ [0xF8]
                    @ ascii ''ret sidder bag motoren...''"

definition twoPages :: "page_entry list" where
  "twoPages =
     [\<lparr>chapter' = ascii ''1'', page = ascii ''01'', imagePath = ascii ''pages/HRN113_1-01.png''\<rparr>,
      \<lparr>chapter' = ascii ''1'', page = ascii ''02'', imagePath = ascii ''pages/HRN113_1-02.png''\<rparr>]"

definition exampleWords :: "(jsstring \<times> occurrence list) list" where
  "exampleWords = [(udstodning, [\<lparr>pageId = 1, context' = Some exampleContext\<rparr>])]"

definition exampleViewer :: ManualViewer where
  "exampleViewer = \<lparr>searchIndex = Some \<lparr>words = Some exampleWords\<rparr>, pages = twoPages\<rparr>"

text \<open>An index with the words "motor" (on page 0 and on a page 7 that is not loaded) and
  "motoren" (on page 1), over the same two pages.\<close>

definition motorWords :: "(jsstring \<times> occurrence list) list" where
  "motorWords =
     [(ascii ''motor'', [\<lparr>pageId = 0, context' = Some (ascii ''en motor'')\<rparr>,
                         \<lparr>pageId = 7, context' = None\<rparr>]),
      (ascii ''motoren'', [\<lparr>pageId = 1, context' = Some (ascii ''bag motoren'')\<rparr>])]"

definition motorViewer :: ManualViewer where
  "motorViewer = \<lparr>searchIndex = Some \<lparr>words = Some motorWords\<rparr>, pages = twoPages\<rparr>"

text \<open>A page text of exactly 100 code units, one window, that contains "motor".\<close>

definition paddedText :: jsstring where
  "paddedText = ascii ''en motor'' @ replicate 92 0x20"

text \<open>A network on which every fetch fails, and a coordinator with an active worker
  and nothing stored.\<close>

definition offlineEnv :: env where
  "offlineEnv = \<lparr>fetchOk = (\<lambda>url. False), now = 0, versionJson = Unreachable\<rparr>"

definition readyManager :: OfflineManager where
  "readyManager = constructor Absent (Some \<lparr>active = True, waiting = False\<rparr>) False"

text \<open>A network on which every fetch succeeds, and the request to cache the manual
  HRN113-001 with one page image.\<close>

definition onlineEnv :: env where
  "onlineEnv = \<lparr>fetchOk = (\<lambda>url. True), now = 1700000000000, versionJson = NotOk\<rparr>"

definition cacheRequest :: message where
  "cacheRequest = \<lparr>action = ascii ''cache-manual'', manualId = ascii ''HRN113-001'',
                    files = Some [ascii ''/pages/HRN113-001/HRN113_1-01.png''], hasPort = True\<rparr>"

definition skipWaitingRequest :: message where
  "skipWaitingRequest = \<lparr>action = ascii ''skip-waiting'', manualId = [], files = None,
                          hasPort = True\<rparr>"


section \<open>Properties of the search engine\<close>

subsection \<open>The matching policy and the accumulated score\<close>

lemma scoreBonus_policy: "scoreBonus q w = first_applicable (matching_policy q w)"
  by (simp add: scoreBonus_def matching_policy_def)

lemma map_of_updateEntry:
  "map_of (updateEntry k f pm) p = (if p = k then map_option f (map_of pm k) else map_of pm p)"
  by (induction pm) auto

lemma map_of_addMatch:
  "map_of (addMatch b w pm m) p =
     (if p = pageId m
      then Some (bumpEntry b w (case map_of pm p of None \<Rightarrow> newEntry m | Some e \<Rightarrow> e))
      else map_of pm p)"
  by (auto simp: addMatch_def map_of_updateEntry map_add_def split: option.splits)

lemma pageScore_addMatch:
  "pageScore (addMatch b w pm m) p = pageScore pm p + (if pageId m = p then b else 0)"
  by (auto simp: pageScore_def map_of_addMatch bumpEntry_def newEntry_def split: option.splits)

lemma pageExact_addMatch:
  "pageExact (addMatch b w pm m) p
     = pageExact pm p + (if pageId m = p \<and> 10 \<le> b then 1 else 0)"
  by (auto simp: pageExact_def map_of_addMatch bumpEntry_def newEntry_def split: option.splits)

lemma pageScore_foldl_addMatch:
  "pageScore (foldl (addMatch b w) pm ms) p
     = pageScore pm p + (\<Sum>m\<leftarrow>ms. if pageId m = p then b else 0)"
  by (induction ms arbitrary: pm) (simp_all add: pageScore_addMatch)

lemma pageExact_foldl_addMatch:
  "pageExact (foldl (addMatch b w) pm ms) p
     = pageExact pm p + (\<Sum>m\<leftarrow>ms. if pageId m = p \<and> 10 \<le> b then 1 else 0)"
  by (induction ms arbitrary: pm) (simp_all add: pageExact_addMatch)

lemma scoreBonus_exact: "(\<exists>b. scoreBonus q w = Some b \<and> 10 \<le> b) \<longleftrightarrow> w = q"
  by (auto simp: scoreBonus_def split: if_splits)

lemma pairWeight_scoreBonus:
  "pairWeight q w = (case scoreBonus q w of None \<Rightarrow> 0 | Some b \<Rightarrow> b)"
  by (simp add: pairWeight_def scoreBonus_policy)

lemma sum_list_zeros: "(\<Sum>m\<leftarrow>xs. if P m then (0::nat) else 0) = 0"
  by (induction xs) auto

lemma pageScore_matchIndexWord:
  "pageScore (matchIndexWord ws q pm w) p
     = pageScore pm p
       + (\<Sum>m\<leftarrow>(case map_of ws w of None \<Rightarrow> [] | Some ms \<Rightarrow> ms).
            if pageId m = p then pairWeight q w else 0)"
proof (cases "scoreBonus q w")
  case None
  then have "pairWeight q w = 0" by (simp add: pairWeight_scoreBonus)
  with None show ?thesis by (auto simp: matchIndexWord_def)
next
  case (Some b)
  then have pw: "pairWeight q w = b" by (simp add: pairWeight_scoreBonus)
  show ?thesis unfolding pw using Some
    by (simp add: matchIndexWord_def pageScore_foldl_addMatch)
qed

lemma pageExact_matchIndexWord:
  "pageExact (matchIndexWord ws q pm w) p
     = pageExact pm p
       + (\<Sum>m\<leftarrow>(case map_of ws w of None \<Rightarrow> [] | Some ms \<Rightarrow> ms).
            if pageId m = p \<and> w = q then 1 else 0)"
proof (cases "scoreBonus q w")
  case None
  then have "w \<noteq> q" using scoreBonus_exact [of q w] by auto
  with None show ?thesis by (simp add: matchIndexWord_def sum_list_zeros)
next
  case (Some b)
  then have "10 \<le> b \<longleftrightarrow> w = q" using scoreBonus_exact [of q w] by auto
  with Some show ?thesis by (simp add: matchIndexWord_def pageExact_foldl_addMatch)
qed

lemma pageScore_foldl_matchIndexWord:
  "pageScore (foldl (matchIndexWord ws q) pm iws) p
     = pageScore pm p
       + (\<Sum>(q', w, m)\<leftarrow>concat (map (\<lambda>w. map (\<lambda>m. (q, w, m))
                                   (case map_of ws w of None \<Rightarrow> [] | Some ms \<Rightarrow> ms)) iws).
            if pageId m = p then pairWeight q' w else 0)"
  by (induction iws arbitrary: pm)
     (simp_all add: pageScore_matchIndexWord comp_def)

lemma pageExact_foldl_matchIndexWord:
  "pageExact (foldl (matchIndexWord ws q) pm iws) p
     = pageExact pm p
       + (\<Sum>(q', w, m)\<leftarrow>concat (map (\<lambda>w. map (\<lambda>m. (q, w, m))
                                   (case map_of ws w of None \<Rightarrow> [] | Some ms \<Rightarrow> ms)) iws).
            if pageId m = p \<and> w = q' then 1 else 0)"
  by (induction iws arbitrary: pm)
     (simp_all add: pageExact_matchIndexWord comp_def)

lemma pageScore_foldl_matchQueryWord:
  "pageScore (foldl (matchQueryWord ws) pm qs) p
     = pageScore pm p
       + (\<Sum>(q, w, m)\<leftarrow>consideredTriples ws qs. if pageId m = p then pairWeight q w else 0)"
  by (induction qs arbitrary: pm)
     (simp_all add: consideredTriples_def matchQueryWord_def pageScore_foldl_matchIndexWord)

lemma pageExact_foldl_matchQueryWord:
  "pageExact (foldl (matchQueryWord ws) pm qs) p
     = pageExact pm p
       + (\<Sum>(q, w, m)\<leftarrow>consideredTriples ws qs. if pageId m = p \<and> w = q then 1 else 0)"
  by (induction qs arbitrary: pm)
     (simp_all add: consideredTriples_def matchQueryWord_def pageExact_foldl_matchIndexWord)

text \<open>
  Claim C1. For every pair of a query token and an index token, the weight that \<open>search\<close>
  uses is the weight of the first rule of the matching policy that applies, and no later
  rule adds to it: the score accumulated for a page is the sum, over the (query token,
  index token, occurrence on that page) triples that \<open>search\<close> goes through, of that one
  weight (nothing for a pair that no rule matches), and the exact-match count of the page
  is the number of those triples whose two tokens are equal.
\<close>

theorem search_matching_policy:
  "scoreBonus q w = first_applicable (matching_policy q w)
   \<and> pageScore (collectMatches ws qs) p
       = (\<Sum>(q', w', m)\<leftarrow>consideredTriples ws qs. if pageId m = p then pairWeight q' w' else 0)
   \<and> pageExact (collectMatches ws qs) p
       = (\<Sum>(q', w', m)\<leftarrow>consideredTriples ws qs. if pageId m = p \<and> w' = q' then 1 else 0)"
proof -
  have "pageScore [] p = 0" "pageExact [] p = 0"
    by (simp_all add: pageScore_def pageExact_def)
  then show ?thesis
    by (simp add: scoreBonus_policy collectMatches_def pageScore_foldl_matchQueryWord
          pageExact_foldl_matchQueryWord)
qed




subsection \<open>The result list\<close>

lemma set_insertBy: "set (insertBy cmp x ys) = insert x (set ys)"
  by (induction ys) auto

lemma mset_insertBy: "mset (insertBy cmp x ys) = add_mset x (mset ys)"
  by (induction ys) auto

lemma mset_jsSort: "mset (jsSort cmp xs) = mset xs"
  unfolding jsSort_def by (induction xs) (simp_all add: mset_insertBy)

lemma set_jsSort: "set (jsSort cmp xs) = set xs"
  using mset_jsSort [of cmp xs] by (metis set_mset_mset)

lemma sorted_insertBy:
  "sorted_wrt (\<lambda>a b. finalScore b \<le> finalScore a) ys
   \<Longrightarrow> sorted_wrt (\<lambda>a b. finalScore b \<le> finalScore a) (insertBy byFinalScore x ys)"
proof (induction ys)
  case Nil
  then show ?case by simp
next
  case (Cons y ys)
  show ?case
  proof (cases "byFinalScore x y \<le> 0")
    case True
    then have "finalScore y \<le> finalScore x" by (simp add: byFinalScore_def)
    with Cons.prems True show ?thesis by auto
  next
    case False
    then have "finalScore x \<le> finalScore y" by (simp add: byFinalScore_def)
    with Cons False show ?thesis by (auto simp: set_insertBy)
  qed
qed

lemma sorted_jsSort:
  "sorted_wrt (\<lambda>a b. finalScore b \<le> finalScore a) (jsSort byFinalScore xs)"
  unfolding jsSort_def by (induction xs) (simp_all add: sorted_insertBy)

lemma stable_insertBy:
  "filter (\<lambda>r. finalScore r = k) (insertBy byFinalScore x ys)
   = (if finalScore x = k then x # filter (\<lambda>r. finalScore r = k) ys
      else filter (\<lambda>r. finalScore r = k) ys)"
  by (induction ys) (auto simp: byFinalScore_def)

lemma stable_jsSort:
  "filter (\<lambda>r. finalScore r = k) (jsSort byFinalScore xs) = filter (\<lambda>r. finalScore r = k) xs"
  unfolding jsSort_def by (induction xs) (simp_all add: stable_insertBy)

lemma toResult_props:
  assumes "r \<in> set (toResult L ps q pm key)"
  shows "\<exists>m. map_of pm key = Some m \<and> pageId r = key \<and> key < length ps
            \<and> score r = score m \<and> exactMatches r = exactMatches m
            \<and> 4 \<le> score m \<and> finalScore r = score m + 5 * exactMatches m
            \<and> displayTitle r = ascii ''Side '' @ chapter' (ps ! key) @ ascii ''-'' @ page (ps ! key)"
proof (cases "map_of pm key")
  case None
  with assms show ?thesis by (simp add: toResult_def)
next
  case (Some m)
  with assms show ?thesis
    by (cases "context' m") (auto simp: toResult_def pageAt_def split: if_splits)
qed

lemma collectResults_props:
  assumes "r \<in> set (collectResults L ps q pm)"
  shows "\<exists>m. map_of pm (pageId r) = Some m \<and> pageId r < length ps
            \<and> score r = score m \<and> exactMatches r = exactMatches m
            \<and> 4 \<le> score m \<and> finalScore r = score m + 5 * exactMatches m"
proof -
  from assms obtain key where "r \<in> set (toResult L ps q pm key)"
    by (auto simp: collectResults_def)
  from toResult_props [OF this] show ?thesis by auto
qed

lemma search_subset:
  "set (search L v q) \<subseteq>
     (case searchIndex v of None \<Rightarrow> {} | Some idx \<Rightarrow>
        (case words idx of None \<Rightarrow> {} | Some ws \<Rightarrow>
           {r \<in> set (collectResults L (pages v) q
                        (collectMatches ws (matchAll danishWordPattern (L q)))). 6 \<le> finalScore r}))"
  by (auto simp: search_def Let_def set_jsSort split: option.splits dest: in_set_takeD)

lemma search_length: "length (search L v q) \<le> 20"
  by (simp add: search_def Let_def split: option.splits)

lemma search_sorted: "sorted_wrt (\<lambda>a b. finalScore b \<le> finalScore a) (search L v q)"
  by (auto simp: search_def Let_def split: option.splits
        intro!: sorted_wrt_take sorted_wrt_filter sorted_jsSort)

subsection \<open>Evaluating the concrete inputs\<close>

lemma motor_tokens:
  "matchAll danishWordPattern (toLowerCaseLatin1 (ascii ''motor'')) = [ascii ''motor'']"
  by (simp add: matchAll_def danishWordPattern_def toLowerCaseLatin1_def lowerUnit_def ascii_def)

lemma motor_bonus:
  "scoreBonus (ascii ''motor'') (ascii ''motor'') = Some 10"
  "scoreBonus (ascii ''motor'') (ascii ''motoren'') = Some 6"
  by (simp_all add: scoreBonus_def ascii_def startsWith_def)

lemma motor_matches:
  "collectMatches motorWords [ascii ''motor''] =
     [(0, \<lparr>pageId = 0, context' = Some (ascii ''en motor''), score = 10,
           matchedWords = [ascii ''motor''], exactMatches = 1\<rparr>),
      (7, \<lparr>pageId = 7, context' = None, score = 10,
           matchedWords = [ascii ''motor''], exactMatches = 1\<rparr>),
      (1, \<lparr>pageId = 1, context' = Some (ascii ''bag motoren''), score = 6,
           matchedWords = [ascii ''motoren''], exactMatches = 0\<rparr>)]"
proof -
  have ne: "ascii ''motor'' \<noteq> ascii ''motoren''" by (simp add: ascii_def)
  show ?thesis
    by (simp add: collectMatches_def matchQueryWord_def matchIndexWord_def motorWords_def
          motor_bonus addMatch_def newEntry_def bumpEntry_def ne)
      (simp add: ascii_def)
qed

lemma motor_results:
  "map (\<lambda>r. (pageId r, finalScore r))
     (collectResults toLowerCaseLatin1 twoPages (ascii ''motor'')
        (collectMatches motorWords [ascii ''motor''])) = [(0, 15), (1, 6)]"
  by (simp add: motor_matches collectResults_def objectKeys_def toResult_def pageAt_def
        twoPages_def)

lemma motor_search:
  "map (\<lambda>r. (pageId r, finalScore r)) (search toLowerCaseLatin1 motorViewer (ascii ''motor''))
     = [(0, 15), (1, 6)]"
proof -
  obtain r0 r1 where rs: "collectResults toLowerCaseLatin1 twoPages (ascii ''motor'')
        (collectMatches motorWords [ascii ''motor'']) = [r0, r1]"
    and r0: "pageId r0 = 0" "finalScore r0 = 15" and r1: "pageId r1 = 1" "finalScore r1 = 6"
    using motor_results by (auto simp: map_eq_Cons_conv)
  show ?thesis
    by (simp add: search_def motorViewer_def motor_tokens Let_def rs jsSort_def byFinalScore_def
          r0 r1)
qed

subsection \<open>The example of the specification, ranking, loaded pages\<close>

lemma example_tokens:
  "matchAll danishWordPattern (toLowerCaseLatin1 udstodningsror) = [udstodningsror]"
  by (simp add: matchAll_def danishWordPattern_def toLowerCaseLatin1_def lowerUnit_def
        udstodningsror_def ascii_def)

lemma example_bonus: "scoreBonus udstodningsror udstodning = Some 4"
  by (simp add: scoreBonus_def udstodningsror_def udstodning_def ascii_def startsWith_def)

lemma example_matches:
  "collectMatches exampleWords [udstodningsror] =
     [(1, \<lparr>pageId = 1, context' = Some exampleContext, score = 4,
           matchedWords = [udstodning], exactMatches = 0\<rparr>)]"
  by (simp add: collectMatches_def matchQueryWord_def matchIndexWord_def exampleWords_def
        example_bonus addMatch_def newEntry_def bumpEntry_def)
    (simp add: udstodningsror_def ascii_def)

lemma example_results:
  "map (\<lambda>r. (pageId r, finalScore r))
     (collectResults toLowerCaseLatin1 (pages exampleViewer) udstodningsror
        (collectMatches exampleWords [udstodningsror])) = [(1, 4)]"
  by (simp add: example_matches collectResults_def objectKeys_def toResult_def pageAt_def
        exampleViewer_def twoPages_def)

lemma example_search: "search toLowerCaseLatin1 exampleViewer udstodningsror = []"
proof -
  obtain r where rs: "collectResults toLowerCaseLatin1 twoPages udstodningsror
        (collectMatches exampleWords [udstodningsror]) = [r]" and r: "finalScore r = 4"
    using example_results by (auto simp: map_eq_Cons_conv exampleViewer_def)
  show ?thesis
    by (simp add: search_def exampleViewer_def example_tokens Let_def rs jsSort_def r)
qed

text \<open>
  Claim C2. For every query, \<open>search\<close> retains a page only if its accumulated weight sum
  is at least 4, gives each retained page the final score weight sum plus 5 times its
  exact-match count, sorts the retained results by final score, highest first, keeping
  results of equal score in the order in which they were inserted, then drops the results
  whose final score is below 6 and keeps at most the first 20; so what it returns has at
  most 20 elements, non-increasing final scores, and final scores of at least 6.
\<close>

theorem search_ranking:
  "length (search L v q) \<le> 20
   \<and> sorted_wrt (\<lambda>a b. finalScore b \<le> finalScore a) (search L v q)
   \<and> (\<forall>r\<in>set (search L v q).
         6 \<le> finalScore r \<and> 4 \<le> score r \<and> finalScore r = score r + 5 * exactMatches r)
   \<and> (\<forall>idx ws. searchIndex v = Some idx \<longrightarrow> words idx = Some ws \<longrightarrow>
         (let pageMatches = collectMatches ws (matchAll danishWordPattern (L q));
              retained = collectResults L (pages v) q pageMatches;
              ranked = jsSort byFinalScore retained
          in search L v q = take 20 (filter (\<lambda>r. 6 \<le> finalScore r) ranked)
             \<and> mset ranked = mset retained
             \<and> sorted_wrt (\<lambda>a b. finalScore b \<le> finalScore a) ranked
             \<and> (\<forall>k. filter (\<lambda>r. finalScore r = k) ranked
                      = filter (\<lambda>r. finalScore r = k) retained)
             \<and> (\<forall>r\<in>set retained.
                   score r = pageScore pageMatches (pageId r)
                   \<and> exactMatches r = pageExact pageMatches (pageId r)
                   \<and> 4 \<le> score r
                   \<and> finalScore r = score r + 5 * exactMatches r)))"
proof -
  have retained: "score r = pageScore pm (pageId r) \<and> exactMatches r = pageExact pm (pageId r)
      \<and> 4 \<le> score r \<and> finalScore r = score r + 5 * exactMatches r"
    if "r \<in> set (collectResults L ps q pm)" for r ps pm
    using collectResults_props [OF that] by (auto simp: pageScore_def pageExact_def)
  have returned: "6 \<le> finalScore r \<and> 4 \<le> score r \<and> finalScore r = score r + 5 * exactMatches r"
    if "r \<in> set (search L v q)" for r
  proof -
    from that search_subset [of L v q] obtain idx ws where
      "r \<in> set (collectResults L (pages v) q
                  (collectMatches ws (matchAll danishWordPattern (L q))))"
      and "6 \<le> finalScore r"
      by (auto split: option.splits)
    with retained show ?thesis by blast
  qed
  have pipeline: "search L v q = take 20 (filter (\<lambda>r. 6 \<le> finalScore r)
        (jsSort byFinalScore (collectResults L (pages v) q
           (collectMatches ws (matchAll danishWordPattern (L q))))))"
    if "searchIndex v = Some idx" "words idx = Some ws" for idx ws
    using that by (simp add: search_def Let_def)
  show ?thesis
    unfolding Let_def
    using search_length search_sorted returned retained pipeline
      mset_jsSort sorted_jsSort stable_jsSort
    by (intro conjI allI impI ballI) blast+
qed

theorem search_ranking_witness:
  "map (\<lambda>r. (pageId r, finalScore r)) (search toLowerCaseLatin1 motorViewer (ascii ''motor''))
     = [(0, 15), (1, 6)]
   \<and> length (search toLowerCaseLatin1 motorViewer (ascii ''motor'')) \<le> 20
   \<and> sorted_wrt (\<lambda>a b. finalScore b \<le> finalScore a)
        (search toLowerCaseLatin1 motorViewer (ascii ''motor''))
   \<and> list_all (\<lambda>r. 6 \<le> finalScore r \<and> 4 \<le> score r
                    \<and> finalScore r = score r + 5 * exactMatches r)
        (search toLowerCaseLatin1 motorViewer (ascii ''motor''))"
proof -
  note ranking = search_ranking [of toLowerCaseLatin1 motorViewer "ascii ''motor''"]
  have len: "length (search toLowerCaseLatin1 motorViewer (ascii ''motor'')) \<le> 20"
    by (rule ranking [THEN conjunct1])
  have ordered: "sorted_wrt (\<lambda>a b. finalScore b \<le> finalScore a)
        (search toLowerCaseLatin1 motorViewer (ascii ''motor''))"
    by (rule ranking [THEN conjunct2, THEN conjunct1])
  have "\<forall>r\<in>set (search toLowerCaseLatin1 motorViewer (ascii ''motor'')).
         6 \<le> finalScore r \<and> 4 \<le> score r \<and> finalScore r = score r + 5 * exactMatches r"
    by (rule ranking [THEN conjunct2, THEN conjunct2, THEN conjunct1])
  then have each: "list_all (\<lambda>r. 6 \<le> finalScore r \<and> 4 \<le> score r
                    \<and> finalScore r = score r + 5 * exactMatches r)
        (search toLowerCaseLatin1 motorViewer (ascii ''motor''))"
    by (simp only: list_all_iff)
  from motor_search len ordered each show ?thesis by blast
qed

text \<open>
  Claim C3 does not hold of the code. For the index that holds the one word
  "udstodning" on page 1 and the query "udstodningsror" (both written with o-slash in the
  source), the index word does not
  start with the longer query word, so the rule of weight 6 does not apply, and the
  page is not among the results.
\<close>

theorem example_udstodning_counterexample:
  "scoreBonus udstodningsror udstodning \<noteq> Some 6
   \<and> search toLowerCaseLatin1 exampleViewer udstodningsror = []"
  by (simp add: example_bonus example_search)

text \<open>
  Claim C3, amended. For that index and query (page 1 present in the pages list),
  \<open>search\<close> matches the pair by the rule "query token starts with index token" with weight
  4; page 1 is retained with final score 4, which is below the final threshold of 6, so the
  page is not included and the returned list is empty.
\<close>

theorem example_udstodning:
  "scoreBonus udstodningsror udstodning = Some 4
   \<and> startsWith udstodningsror udstodning \<and> \<not> startsWith udstodning udstodningsror
   \<and> matchAll danishWordPattern (toLowerCaseLatin1 udstodningsror) = [udstodningsror]
   \<and> map (\<lambda>r. (pageId r, finalScore r))
        (collectResults toLowerCaseLatin1 (pages exampleViewer) udstodningsror
           (collectMatches exampleWords [udstodningsror])) = [(1, 4)]
   \<and> search toLowerCaseLatin1 exampleViewer udstodningsror = []"
proof -
  have "startsWith udstodningsror udstodning" "\<not> startsWith udstodning udstodningsror"
    by (simp_all add: startsWith_def udstodningsror_def udstodning_def ascii_def)
  then show ?thesis
    by (simp add: example_bonus example_tokens example_results example_search)
qed

text \<open>
  Claim C10. Every result that \<open>search\<close> returns carries a page id that indexes an entry
  of the loaded pages; an occurrence in the index whose page id is outside the loaded
  pages yields no result (and \<open>search\<close>, a total function, has no error to raise for it).
\<close>

theorem search_pageIds_loaded:
  "(\<forall>r\<in>set (search L v q).
      pageId r < length (pages v) \<and> pageAt (pages v) (pageId r) = Some (pages v ! pageId r))
   \<and> (\<forall>p. length (pages v) \<le> p \<longrightarrow> p \<notin> pageId ` set (search L v q))"
proof -
  have loaded: "pageId r < length (pages v)" if "r \<in> set (search L v q)" for r
  proof -
    from that search_subset [of L v q] obtain ws where
      "r \<in> set (collectResults L (pages v) q
                  (collectMatches ws (matchAll danishWordPattern (L q))))"
      by (auto split: option.splits)
    from collectResults_props [OF this] show ?thesis by blast
  qed
  then show ?thesis by (fastforce simp: pageAt_def)
qed

theorem search_pageIds_loaded_witness:
  "map pageId (search toLowerCaseLatin1 motorViewer (ascii ''motor'')) = [0, 1]
   \<and> length (pages motorViewer) = 2
   \<and> \<lparr>pageId = 7, context' = None\<rparr> \<in> set (the (map_of motorWords (ascii ''motor'')))
   \<and> list_all (\<lambda>r. pageId r < length (pages motorViewer))
        (search toLowerCaseLatin1 motorViewer (ascii ''motor''))
   \<and> 7 \<notin> pageId ` set (search toLowerCaseLatin1 motorViewer (ascii ''motor''))"
proof -
  note loaded = search_pageIds_loaded [of toLowerCaseLatin1 motorViewer "ascii ''motor''"]
  have ids: "map pageId (search toLowerCaseLatin1 motorViewer (ascii ''motor'')) = [0, 1]"
    using motor_search [THEN arg_cong, of "map fst"] by (simp add: comp_def)
  have two: "length (pages motorViewer) = 2"
    by (simp add: motorViewer_def twoPages_def)
  have occ: "\<lparr>pageId = 7, context' = None\<rparr> \<in> set (the (map_of motorWords (ascii ''motor'')))"
    by (simp add: motorWords_def)
  have "\<forall>r\<in>set (search toLowerCaseLatin1 motorViewer (ascii ''motor'')).
          pageId r < length (pages motorViewer)
          \<and> pageAt (pages motorViewer) (pageId r) = Some (pages motorViewer ! pageId r)"
    by (rule loaded [THEN conjunct1])
  then have each: "list_all (\<lambda>r. pageId r < length (pages motorViewer))
        (search toLowerCaseLatin1 motorViewer (ascii ''motor''))"
    by (simp add: list_all_iff)
  have "length (pages motorViewer) \<le> 7" using two by simp
  with loaded [THEN conjunct2]
  have absent: "7 \<notin> pageId ` set (search toLowerCaseLatin1 motorViewer (ascii ''motor''))"
    by blast
  from ids two occ each absent show ?thesis by blast
qed

subsection \<open>Context extraction\<close>

lemma length_substring:
  "a \<le> b \<Longrightarrow> b \<le> length s \<Longrightarrow> length (substring s a b) = b - a"
  by (auto simp: substring_def Let_def min_def max_def)

lemma bestWindow_index:
  "bestWindow qs low len i bi bs = (bi', bs') \<Longrightarrow> bi = 0 \<or> bi + 100 \<le> len
   \<Longrightarrow> bi' = 0 \<or> bi' + 100 \<le> len"
proof (induction qs low len i bi bs rule: bestWindow.induct)
  case (1 qs low len i bi bs)
  show ?case
  proof (cases "i + 100 \<le> len")
    case False
    with "1.prems" show ?thesis by (simp add: bestWindow.simps [of qs low len i bi bs])
  next
    case inside: True
    show ?thesis
    proof (cases "bs < windowScore qs (substring low i (i + 100))")
      case True
      with inside "1.prems"(1)
      have "bestWindow qs low len (i + 10) i (windowScore qs (substring low i (i + 100))) = (bi', bs')"
        by (simp add: bestWindow.simps [of qs low len i bi bs] Let_def)
      with "1.IH"(1) [OF inside refl refl True] inside show ?thesis by simp
    next
      case False
      with inside "1.prems"(1)
      have "bestWindow qs low len (i + 10) bi bs = (bi', bs')"
        by (simp add: bestWindow.simps [of qs low len i bi bs] Let_def)
      with "1.IH"(2) [OF inside refl refl False] "1.prems"(2) show ?thesis by simp
    qed
  qed
qed

lemma partialWindow_index:
  "partialWindow qs low len i = Some k \<Longrightarrow> k + 100 \<le> len"
proof (induction qs low len i rule: partialWindow.induct)
  case (1 qs low len i)
  show ?case
  proof (cases "i + 100 \<le> len")
    case False
    with "1.prems" show ?thesis by (simp add: partialWindow.simps [of qs low len i])
  next
    case inside: True
    show ?thesis
    proof (cases "partialHit qs (substring low i (i + 100))")
      case True
      with inside "1.prems" show ?thesis by (simp add: partialWindow.simps [of qs low len i])
    next
      case False
      with inside "1.prems" have "partialWindow qs low len (i + 10) = Some k"
        by (simp add: partialWindow.simps [of qs low len i])
      with "1.IH" [OF inside False] show ?thesis .
    qed
  qed
qed

lemma slice_nonempty:
  assumes "text \<noteq> []" and "b = 0 \<or> b + 100 \<le> length text"
  shows "substring text (b - 25) (min (length text) (b + 125)) \<noteq> []"
proof -
  have "0 < length text" using assms(1) by simp
  with assms(2) have lt: "b - 25 < min (length text) (b + 125)" by auto
  then have "length (substring text (b - 25) (min (length text) (b + 125)))
             = min (length text) (b + 125) - (b - 25)"
    by (intro length_substring) auto
  with lt show ?thesis by auto
qed

lemma noContext_nonempty: "noContext \<noteq> []"
  by (simp add: noContext_def)

lemma getSearchContext_nonempty: "getSearchContext L text query \<noteq> []"
proof (cases "text = []")
  case True
  then show ?thesis by (simp add: getSearchContext_def noContext_nonempty)
next
  case False
  define qs where "qs = matchAll wordChar (L query)"
  obtain b0 sc where bw: "bestWindow qs (L text) (length text) 0 0 0 = (b0, sc)"
    by (cases "bestWindow qs (L text) (length text) 0 0 0")
  define b where "b = (if sc = 0 then (case partialWindow qs (L text) (length text) 0 of
                                         Some i \<Rightarrow> i | None \<Rightarrow> b0) else b0)"
  have b0: "b0 = 0 \<or> b0 + 100 \<le> length text"
    using bestWindow_index [OF bw] by simp
  have "b = 0 \<or> b + 100 \<le> length text"
    using b0 partialWindow_index [of qs "L text" "length text" 0]
    by (auto simp: b_def split: option.splits)
  from slice_nonempty [OF False this]
  have c0: "substring text (b - 25) (min (length text) (b + 125)) \<noteq> []" .
  define c0 where "c0 = substring text (b - 25) (min (length text) (b + 125))"
  have "getSearchContext L text query =
          (if min (length text) (b + 125) < length text
           then (if 0 < b - 25 then ascii ''...'' @ c0 else c0) @ ascii ''...''
           else (if 0 < b - 25 then ascii ''...'' @ c0 else c0))"
    unfolding getSearchContext_def Let_def qs_def [symmetric] bw prod.case
      b_def [symmetric] c0_def [symmetric]
    using False by simp
  with c0 show ?thesis by (simp add: c0_def [symmetric])
qed

text \<open>
  Claim C5. For every page text and every query, \<open>getSearchContext\<close> (the context
  extractor) returns a non-empty string: it is a total function of its arguments with no
  branch that raises, both loops terminate, and for the empty page text the result is the
  "no context available" sentinel.
\<close>

theorem getSearchContext_total:
  "getSearchContext L text query \<noteq> [] \<and> getSearchContext L [] query = noContext"
  by (simp add: getSearchContext_nonempty) (simp add: getSearchContext_def)

subsection \<open>The coverage score of a window\<close>

lemma windowScore_count:
  "windowScore queryWords window = length (filter (\<lambda>t. includes' window t) queryWords)"
  by (induction queryWords) simp_all

lemma doubled_tokens:
  "matchAll wordChar (toLowerCaseLatin1 (ascii ''motor motor'')) = [ascii ''motor'', ascii ''motor'']"
  "matchAll danishWordPattern (toLowerCaseLatin1 (ascii ''motor motor''))
     = [ascii ''motor'', ascii ''motor'']"
  by (simp_all add: matchAll_def wordChar_def danishWordPattern_def toLowerCaseLatin1_def
        lowerUnit_def ascii_def)

text \<open>
  The two tokenizers differ on the Danish letters: for the query "ror" written with
  o-slash, \<open>search\<close> has the one token of three letters, \<open>getSearchContext\<close> the two tokens
  "r" and "r".
\<close>

lemma tokenizers_differ:
  "matchAll danishWordPattern (toLowerCaseLatin1 (ascii ''r'' @ [0xF8] @ ascii ''r''))
     = [ascii ''r'' @ [0xF8] @ ascii ''r'']"
  "matchAll wordChar (toLowerCaseLatin1 (ascii ''r'' @ [0xF8] @ ascii ''r''))
     = [ascii ''r'', ascii ''r'']"
  by (simp_all add: matchAll_def wordChar_def danishWordPattern_def toLowerCaseLatin1_def
        lowerUnit_def ascii_def)

lemma padded_length: "length paddedText = 100"
  by (simp add: paddedText_def ascii_def)

lemma padded_lower: "toLowerCaseLatin1 paddedText = paddedText"
  by (simp add: toLowerCaseLatin1_def paddedText_def ascii_def lowerUnit_def)

lemma padded_window: "substring paddedText 0 100 = paddedText"
  using padded_length by (simp add: substring_def Let_def)

lemma padded_has_motor: "includes' paddedText (ascii ''motor'')"
  by (simp add: paddedText_def ascii_def startsWith_def)

lemma padded_best:
  "bestWindow [ascii ''motor'', ascii ''motor''] paddedText 100 0 0 0 = (0, 2)"
  by (simp add: bestWindow.simps [of _ _ 100 0] bestWindow.simps [of _ _ 100 10] Let_def
        padded_window padded_has_motor)

lemma bestWindow_score:
  "bestWindow qs low len i bi bs = (bi', bs')
   \<Longrightarrow> bs = 0 \<or> bs = windowScore qs (substring low bi (bi + 100))
   \<Longrightarrow> bs' = 0 \<or> bs' = windowScore qs (substring low bi' (bi' + 100))"
proof (induction qs low len i bi bs rule: bestWindow.induct)
  case (1 qs low len i bi bs)
  show ?case
  proof (cases "i + 100 \<le> len")
    case False
    with "1.prems" show ?thesis by (simp add: bestWindow.simps [of qs low len i bi bs])
  next
    case inside: True
    show ?thesis
    proof (cases "bs < windowScore qs (substring low i (i + 100))")
      case True
      with inside "1.prems"(1)
      have "bestWindow qs low len (i + 10) i (windowScore qs (substring low i (i + 100))) = (bi', bs')"
        by (simp add: bestWindow.simps [of qs low len i bi bs] Let_def)
      with "1.IH"(1) [OF inside refl refl True] show ?thesis by simp
    next
      case False
      with inside "1.prems"(1)
      have "bestWindow qs low len (i + 10) bi bs = (bi', bs')"
        by (simp add: bestWindow.simps [of qs low len i bi bs] Let_def)
      with "1.IH"(2) [OF inside refl refl False] "1.prems"(2) show ?thesis by simp
    qed
  qed
qed

lemma bestWindow_first_pass:
  "snd (bestWindow qs low len 0 0 0) = 0
   \<or> snd (bestWindow qs low len 0 0 0)
       = windowScore qs (substring low (fst (bestWindow qs low len 0 0 0))
                                        (fst (bestWindow qs low len 0 0 0) + 100))"
  using bestWindow_score [of qs low len 0 0 0 "fst (bestWindow qs low len 0 0 0)"
      "snd (bestWindow qs low len 0 0 0)"]
  by simp

text \<open>
  Claim C4 does not hold of the code. For the query "motor motor" both tokenizers give
  the token "motor" twice; for a page text of one window that contains "motor", the
  extractor's first pass ends with the score 2 for that window, and the number of distinct
  query tokens found in the window is 1.
\<close>

theorem coverage_distinct_counterexample:
  "matchAll wordChar (toLowerCaseLatin1 (ascii ''motor motor''))
     = matchAll danishWordPattern (toLowerCaseLatin1 (ascii ''motor motor''))
   \<and> bestWindow (matchAll wordChar (toLowerCaseLatin1 (ascii ''motor motor'')))
        (toLowerCaseLatin1 paddedText) (length paddedText) 0 0 0 = (0, 2)
   \<and> windowScore (matchAll wordChar (toLowerCaseLatin1 (ascii ''motor motor'')))
        (substring (toLowerCaseLatin1 paddedText) 0 100) = 2
   \<and> coverageScore (matchAll danishWordPattern (toLowerCaseLatin1 (ascii ''motor motor'')))
        (substring (toLowerCaseLatin1 paddedText) 0 100) = 1"
  by (simp add: doubled_tokens padded_lower padded_length padded_window padded_best
        coverageScore_def padded_has_motor)

text \<open>
  Claim C4, amended. For every query, a window's coverage score counts the tokens of the
  lower-cased query that occur as substrings of the window (which is cut from the
  lower-cased text), a token that the query repeats being counted each time; on a token
  list without repetitions this is the number of distinct tokens found in the window. The
  score with which the first pass ends is 0 or this score of the window at the offset it
  has chosen.
\<close>

theorem coverage_counts_tokens:
  "windowScore queryWords window = length (filter (\<lambda>t. includes' window t) queryWords)
   \<and> windowScore (remdups queryWords) window = coverageScore queryWords window
   \<and> coverageScore queryWords window \<le> windowScore queryWords window
   \<and> (snd (bestWindow queryWords low len 0 0 0) = 0
      \<or> snd (bestWindow queryWords low len 0 0 0)
          = windowScore queryWords
              (substring low (fst (bestWindow queryWords low len 0 0 0))
                             (fst (bestWindow queryWords low len 0 0 0) + 100)))"
proof -
  have "length (remdups (filter (\<lambda>t. includes' window t) queryWords))
          \<le> length (filter (\<lambda>t. includes' window t) queryWords)"
    by (rule length_remdups_leq)
  then have "windowScore queryWords window = length (filter (\<lambda>t. includes' window t) queryWords)
   \<and> windowScore (remdups queryWords) window = coverageScore queryWords window
   \<and> coverageScore queryWords window \<le> windowScore queryWords window"
    by (simp add: windowScore_count coverageScore_def remdups_filter)
  with bestWindow_first_pass [of queryWords low len] show ?thesis by blast
qed


section \<open>Properties of the cache controller\<close>

subsection \<open>Lookups after the cache operations\<close>

lemma map_of_cachesOpen:
  "map_of (cachesOpen name cs) n
     = (if n = name \<and> map_of cs name = None then Some [] else map_of cs n)"
  by (auto simp: cachesOpen_def map_add_def split: option.splits)

lemma map_of_putEntry:
  "map_of (putEntry url b c) u = (if u = url then Some b else map_of c u)"
  by (induction c) auto

lemma map_of_cachePut:
  "map_of (cachePut name url b cs) n
     = (if n = name then map_option (putEntry url b) (map_of cs name) else map_of cs n)"
  by (induction cs) auto

lemma map_of_filter_names:
  "map_of (filter (\<lambda>entry. P (fst entry)) cs) n = (if P n then map_of cs n else None)"
  by (induction cs) auto

lemma map_of_foldl_putEntry:
  "map_of (foldl (\<lambda>c u. putEntry u (Fetched u) c) c urls) key
     = (if key \<in> set urls then Some (Fetched key) else map_of c key)"
  by (induction urls arbitrary: c rule: rev_induct) (auto simp: map_of_putEntry)

lemma map_of_foldl_cachePut:
  "map_of (foldl (\<lambda>cs' u. cachePut name u (Fetched u) cs') cs urls) n
     = (if n = name
        then map_option (\<lambda>c. foldl (\<lambda>c u. putEntry u (Fetched u) c) c urls) (map_of cs name)
        else map_of cs n)"
proof (induction urls rule: rev_induct)
  case Nil
  show ?case by (cases "map_of cs name") (auto simp: option.map_ident)
next
  case (snoc u urls)
  then show ?case by (cases "map_of cs name") (auto simp: map_of_cachePut)
qed

lemma map_of_cacheAddAll:
  assumes "cacheAddAll ok name urls cs = Some cs'"
  shows "map_of cs' n
     = (if n = name
        then map_option (\<lambda>c. foldl (\<lambda>c u. putEntry u (Fetched u) c) c urls) (map_of cs name)
        else map_of cs n)"
  using assms by (auto simp: cacheAddAll_def map_of_foldl_cachePut split: if_splits)

subsection \<open>The invariant\<close>

lemma manual_prefix: "startsWith (ascii ''manual-'' @ manual) (ascii ''manual-'')"
  by (simp add: startsWith_def ascii_def)

lemma drop_manual_prefix: "drop 7 (ascii ''manual-'' @ manual) = manual"
  by (simp add: ascii_def)

lemma prefix_split:
  "startsWith name (ascii ''manual-'') \<Longrightarrow> name = ascii ''manual-'' @ drop 7 name"
proof -
  have len: "length (ascii ''manual-'') = 7" by (simp add: ascii_def)
  assume "startsWith name (ascii ''manual-'')"
  then have "take 7 name = ascii ''manual-''" unfolding startsWith_def len .
  then show ?thesis by (metis append_take_drop_id)
qed

lemma core_not_manual: "\<not> startsWith CORE_CACHE_NAME (ascii ''manual-'')"
  by (simp add: startsWith_def CORE_CACHE_NAME_def CACHE_VERSION_def ascii_def)

lemma metadata_key_not_core_file:
  "MANUAL_FILES manual = Some coreFiles \<Longrightarrow> ascii ''manual-'' @ rest \<notin> set coreFiles"
  by (auto simp: MANUAL_FILES_def ascii_def split: if_splits)

lemma consistent_empty: "consistent []"
  by (simp add: consistent_def metadataEntryOk_def)

lemma consistent_cachesOpen: "consistent cs \<Longrightarrow> consistent (cachesOpen name cs)"
  by (auto simp: consistent_def metadataEntryOk_def map_of_cachesOpen)

lemma consistent_filter: "consistent cs \<Longrightarrow> consistent (filter (\<lambda>entry. P (fst entry)) cs)"
  by (auto simp: consistent_def metadataEntryOk_def map_of_filter_names)

lemma consistent_other:
  assumes "consistent cs" and "\<And>n. n \<noteq> name \<Longrightarrow> map_of cs' n = map_of cs n"
    and "metadataEntryOk cs' name"
  shows "consistent cs'"
  unfolding consistent_def
proof (intro allI impI)
  fix n assume n: "startsWith n (ascii ''manual-'')"
  show "metadataEntryOk cs' n"
  proof (cases "n = name")
    case True
    with assms(3) show ?thesis by simp
  next
    case False
    from assms(1) n have "metadataEntryOk cs n" by (simp add: consistent_def)
    with assms(2) [OF False] show ?thesis by (simp add: metadataEntryOk_def)
  qed
qed

lemma consistent_install: "consistent cs \<Longrightarrow> consistent (install e cs)"
proof -
  assume cs: "consistent cs"
  then have c1: "consistent (cachesOpen CORE_CACHE_NAME cs)" by (rule consistent_cachesOpen)
  show ?thesis
  proof (cases "cacheAddAll (fetchOk e) CORE_CACHE_NAME CORE_FILES (cachesOpen CORE_CACHE_NAME cs)")
    case None
    with c1 show ?thesis by (simp add: install_def)
  next
    case (Some cs2)
    have "consistent cs2"
      unfolding consistent_def
    proof (intro allI impI)
      fix n assume n: "startsWith n (ascii ''manual-'')"
      with core_not_manual have "n \<noteq> CORE_CACHE_NAME" by auto
      with map_of_cacheAddAll [OF Some, of n]
      have "map_of cs2 n = map_of (cachesOpen CORE_CACHE_NAME cs) n" by simp
      moreover from c1 n have "metadataEntryOk (cachesOpen CORE_CACHE_NAME cs) n"
        by (simp add: consistent_def)
      ultimately show "metadataEntryOk cs2 n" by (simp add: metadataEntryOk_def)
    qed
    with Some show ?thesis by (simp add: install_def)
  qed
qed

lemma consistent_activate: "consistent cs \<Longrightarrow> consistent (activate cs)"
  unfolding activate_def by (rule consistent_filter)

lemma consistent_removeManual: "consistent cs \<Longrightarrow> consistent (fst (removeManual manual cs))"
  unfolding removeManual_def cachesDelete_def
  by (simp add: consistent_filter [where P = "\<lambda>n. n \<noteq> ascii ''manual-'' @ manual"])

lemma consistent_cacheManual:
  assumes "consistent cs"
  shows "consistent (fst (cacheManual e manual fs cs))"
proof -
  define name where "name = ascii ''manual-'' @ manual"
  define key where "key = name @ ascii ''-metadata''"
  define cs1 where "cs1 = cachesOpen name cs"
  have c1: "consistent cs1" unfolding cs1_def using assms by (rule consistent_cachesOpen)
  have pre: "startsWith name (ascii ''manual-'')"
    unfolding name_def by (rule manual_prefix)
  have id: "drop 7 name = manual"
    unfolding name_def by (rule drop_manual_prefix)
  show ?thesis
  proof (cases "MANUAL_FILES manual")
    case None
    with c1 show ?thesis
      by (simp add: cacheManual_def Let_def name_def [symmetric] cs1_def [symmetric])
  next
    case core: (Some coreFiles)
    have key_core: "key \<notin> set coreFiles"
      unfolding key_def name_def
      using metadata_key_not_core_file [OF core, of "manual @ ascii ''-metadata''"] by simp
    show ?thesis
    proof (cases "cacheAddAll (fetchOk e) name coreFiles cs1")
      case None
      with c1 core show ?thesis
        by (simp add: cacheManual_def Let_def name_def [symmetric] cs1_def [symmetric])
    next
      case (Some cs2)
      note look2 = map_of_cacheAddAll [OF Some]
      have ok1: "metadataEntryOk cs1 name" using c1 pre by (simp add: consistent_def)
      have ok2: "metadataEntryOk cs2 name"
        using ok1 key_core
        by (cases "map_of cs1 name")
           (auto simp: metadataEntryOk_def look2 map_of_foldl_putEntry key_def [symmetric])
      have c2: "consistent cs2"
        using c1 _ ok2 by (rule consistent_other) (simp add: look2)
      define third where "third = (case fs of None \<Rightarrow> Some cs2
          | Some fl \<Rightarrow> if 0 < length fl then cacheAddAll (fetchOk e) name fl cs2 else Some cs2)"
      show ?thesis
      proof (cases third)
        case None
        with Some core c2 show ?thesis
          by (simp add: cacheManual_def Let_def name_def [symmetric] cs1_def [symmetric]
                third_def [symmetric])
      next
        case third: (Some cs3)
        have other3: "map_of cs3 n = map_of cs2 n" if "n \<noteq> name" for n
          using third that
          by (auto simp: third_def map_of_cacheAddAll split: option.splits if_splits)
        define md where "md = \<lparr>id' = manual, cachedAt = now e, version = Some CACHE_VERSION,
            fileCount = length coreFiles
                        + (case fs of None \<Rightarrow> 0 | Some fl \<Rightarrow> length fl)\<rparr>"
        define cs4 where "cs4 = cachePut name key (MetadataJson md) cs3"
        have ok4: "metadataEntryOk cs4 name"
          by (cases "map_of cs3 name")
             (auto simp: metadataEntryOk_def cs4_def map_of_cachePut map_of_putEntry
                key_def [symmetric] md_def id)
        have "consistent cs4"
          using c2 _ ok4 by (rule consistent_other) (simp add: cs4_def map_of_cachePut other3)
        with Some core third show ?thesis
          by (simp add: cacheManual_def Let_def name_def [symmetric] cs1_def [symmetric]
                third_def [symmetric] key_def [symmetric] md_def [symmetric] cs4_def [symmetric])
      qed
    qed
  qed
qed

lemma consistent_handleMessage:
  "consistent cs \<Longrightarrow> consistent (fst (handleMessage e msg cs))"
  using consistent_cacheManual [of cs e "manualId msg" "files msg"]
    consistent_removeManual [of cs "manualId msg"]
  by (auto simp: handleMessage_def split: prod.splits)

lemma consistent_step: "consistent cs \<Longrightarrow> consistent (step cs ev)"
  by (cases ev)
     (simp_all add: consistent_install consistent_activate consistent_handleMessage
        consistent_empty)

lemma consistent_foldl: "consistent cs \<Longrightarrow> consistent (foldl step cs events)"
  by (induction events arbitrary: cs) (simp_all add: consistent_step)

lemma consistent_run: "consistent (run events)"
  unfolding run_def by (rule consistent_foldl) (rule consistent_empty)

subsection \<open>The report\<close>

lemma replaceFirst_prefix:
  "startsWith name pat \<Longrightarrow> replaceFirst pat [] name = drop (length pat) name"
  by (cases name) (auto simp: startsWith_def)

lemma readMetadata_ids:
  assumes "consistent cs" and "\<forall>n\<in>set names. startsWith n (ascii ''manual-'')"
  shows "\<exists>ms. readMetadata cs names = Some ms \<and> map id' ms = map (drop 7) names"
  using assms(2)
proof (induction names)
  case Nil
  show ?case by simp
next
  case (Cons n names)
  then obtain ms where ms: "readMetadata cs names = Some ms" "map id' ms = map (drop 7) names"
    by auto
  have pre: "startsWith n (ascii ''manual-'')" using Cons.prems by simp
  have len: "length (ascii ''manual-'') = 7" by (simp add: ascii_def)
  have rep: "replaceFirst (ascii ''manual-'') [] n = drop 7 n"
    using replaceFirst_prefix [OF pre] len by simp
  from assms(1) pre have ok: "metadataEntryOk cs n" by (simp add: consistent_def)
  show ?case
  proof (cases "map_of (case map_of cs n of None \<Rightarrow> [] | Some c' \<Rightarrow> c') (n @ ascii ''-metadata'')")
    case None
    with ms rep show ?thesis by (simp add: Let_def)
  next
    case (Some b)
    with ok obtain md where b: "b = MetadataJson md" and md: "id' md = drop 7 n"
      by (cases "map_of cs n"; cases b) (auto simp: metadataEntryOk_def)
    with Some ms rep show ?thesis by (simp add: Let_def)
  qed
qed

lemma reportedOffline_run:
  "\<exists>ms. getOfflineManuals (run events) = Manuals ms
        \<and> reportedOffline (run events)
          = map (drop 7) (filter (\<lambda>name. startsWith name (ascii ''manual-''))
                                (map fst (run events)))"
proof -
  from readMetadata_ids [OF consistent_run,
      of "filter (\<lambda>name. startsWith name (ascii ''manual-'')) (map fst (run events))" events]
  obtain ms where "readMetadata (run events)
      (filter (\<lambda>name. startsWith name (ascii ''manual-'')) (map fst (run events))) = Some ms"
    and "map id' ms = map (drop 7)
      (filter (\<lambda>name. startsWith name (ascii ''manual-'')) (map fst (run events)))"
    by auto
  then show ?thesis by (simp add: getOfflineManuals_def reportedOffline_def Let_def)
qed

lemma reported_iff_cache:
  "manual \<in> set (reportedOffline (run events))
     \<longleftrightarrow> map_of (run events) (ascii ''manual-'' @ manual) \<noteq> None"
proof -
  from reportedOffline_run [of events]
  have rep: "reportedOffline (run events)
          = map (drop 7) (filter (\<lambda>name. startsWith name (ascii ''manual-''))
                                (map fst (run events)))" by auto
  show ?thesis
  proof
    assume "manual \<in> set (reportedOffline (run events))"
    then obtain n where n: "n \<in> fst ` set (run events)" "startsWith n (ascii ''manual-'')"
      "manual = drop 7 n" by (auto simp: rep)
    from prefix_split [OF n(2)] n(3) have "n = ascii ''manual-'' @ manual" by simp
    with n(1) show "map_of (run events) (ascii ''manual-'' @ manual) \<noteq> None"
      by (simp add: map_of_eq_None_iff)
  next
    assume "map_of (run events) (ascii ''manual-'' @ manual) \<noteq> None"
    then have "ascii ''manual-'' @ manual \<in> fst ` set (run events)"
      by (simp add: map_of_eq_None_iff)
    with manual_prefix [of manual]
    have "ascii ''manual-'' @ manual
        \<in> set (filter (\<lambda>name. startsWith name (ascii ''manual-'')) (map fst (run events)))"
      by simp
    then have "drop 7 (ascii ''manual-'' @ manual)
        \<in> drop 7 ` set (filter (\<lambda>name. startsWith name (ascii ''manual-''))
                                (map fst (run events)))"
      by (rule imageI)
    then show "manual \<in> set (reportedOffline (run events))"
      by (simp only: rep set_map drop_manual_prefix)
  qed
qed

subsection \<open>A failed and a successful download\<close>

lemma failed_download:
  "handleMessage offlineEnv cacheRequest []
     = ([(ascii ''manual-HRN113-001'', [])], Some (Failure (Some (ascii ''HRN113-001''))), False)"
  by (simp add: handleMessage_def cacheRequest_def cacheManual_def cachesOpen_def
        cacheAddAll_def MANUAL_FILES_def offlineEnv_def toPort_def Let_def ascii_def)

lemma failed_download_run:
  "run [Message offlineEnv cacheRequest] = [(ascii ''manual-HRN113-001'', [])]"
  by (simp add: run_def failed_download)

lemma failed_download_reported:
  "reportedOffline [(ascii ''manual-HRN113-001'', [])] = [ascii ''HRN113-001'']"
  by (simp add: reportedOffline_def getOfflineManuals_def Let_def startsWith_def ascii_def)

lemma failed_download_untagged:
  "\<not> taggedCache [(ascii ''manual-HRN113-001'', [])] (ascii ''HRN113-001'')"
  by (simp add: taggedCache_def ascii_def)

lemma successful_download_tagged:
  "taggedCache (run [Message onlineEnv cacheRequest]) (ascii ''HRN113-001'')"
  by (simp add: run_def handleMessage_def cacheRequest_def cacheManual_def cachesOpen_def
        cacheAddAll_def MANUAL_FILES_def onlineEnv_def Let_def taggedCache_def ascii_def)

text \<open>
  Claim C6 does not hold of the code. A \<open>cache-manual\<close> request for HRN113-001 that
  arrives while nothing can be fetched is answered with the failure reply and leaves the
  cache \<open>manual-HRN113-001\<close> behind, empty and without a metadata entry; the report of
  \<open>get-offline-manuals\<close> then lists HRN113-001.
\<close>

theorem offline_report_counterexample:
  "handleMessage offlineEnv cacheRequest []
     = ([(ascii ''manual-HRN113-001'', [])], Some (Failure (Some (ascii ''HRN113-001''))), False)
   \<and> reportedOffline (run [Message offlineEnv cacheRequest]) = [ascii ''HRN113-001'']
   \<and> \<not> taggedCache (run [Message offlineEnv cacheRequest]) (ascii ''HRN113-001'')"
  by (simp only: failed_download failed_download_run failed_download_reported
        failed_download_untagged simp_thms)

text \<open>
  Claim C6, amended. In every state of the cache storage that the worker's events and
  the foreground's clearing of all caches can produce, \<open>get-offline-manuals\<close> succeeds and
  reports a manual identifier if and only if a cache named \<open>manual-\<close> followed by the
  identifier exists in the storage, whether or not the cache holds a metadata entry or any
  file; in particular every manual with a non-empty cache tagged with its metadata entry
  is reported.
\<close>

theorem offline_report_invariant:
  "(\<exists>ms. getOfflineManuals (run events) = Manuals ms)
   \<and> (manual \<in> set (reportedOffline (run events))
        \<longleftrightarrow> map_of (run events) (ascii ''manual-'' @ manual) \<noteq> None)
   \<and> (taggedCache (run events) manual \<longrightarrow> manual \<in> set (reportedOffline (run events)))"
proof -
  have "map_of (run events) (ascii ''manual-'' @ manual) \<noteq> None"
    if "taggedCache (run events) manual"
    using that by (auto simp: taggedCache_def split: option.splits)
  with reportedOffline_run [of events] reported_iff_cache [of manual events]
  show ?thesis by blast
qed

theorem offline_report_invariant_witness:
  "taggedCache (run [Message onlineEnv cacheRequest]) (ascii ''HRN113-001'')
   \<and> ascii ''HRN113-001'' \<in> set (reportedOffline (run [Message onlineEnv cacheRequest]))
   \<and> map_of (run [Message onlineEnv cacheRequest]) (ascii ''manual-'' @ ascii ''HRN113-001'')
       \<noteq> None"
proof -
  note inv = offline_report_invariant [of "[Message onlineEnv cacheRequest]" "ascii ''HRN113-001''"]
  have tagged: "taggedCache (run [Message onlineEnv cacheRequest]) (ascii ''HRN113-001'')"
    by (rule successful_download_tagged)
  have reported: "ascii ''HRN113-001'' \<in> set (reportedOffline (run [Message onlineEnv cacheRequest]))"
    by (rule inv [THEN conjunct2, THEN conjunct2, THEN mp, OF tagged])
  have "map_of (run [Message onlineEnv cacheRequest]) (ascii ''manual-'' @ ascii ''HRN113-001'')
       \<noteq> None"
    by (rule inv [THEN conjunct2, THEN conjunct1, THEN iffD1, OF reported])
  with tagged reported show ?thesis by blast
qed

subsection \<open>The action that activates a waiting worker\<close>

text \<open>
  Claim C9 does not hold of the code. The worker has no case for the action name
  \<open>skip-waiting\<close>: such a request takes the default branch, is answered with the
  unknown-action reply, and \<^verbatim>\<open>self.skipWaiting()\<close> is not called.
\<close>

theorem skip_waiting_counterexample:
  "handleMessage offlineEnv skipWaitingRequest []
     = ([], Some (UnknownAction (ascii ''skip-waiting'')), False)"
  by (simp add: handleMessage_def skipWaitingRequest_def toPort_def ascii_def)

text \<open>
  Claim C9, amended. The worker message protocol accepts the action name \<open>skipWaiting\<close>:
  a request whose action field is \<open>skipWaiting\<close> makes the worker call
  \<^verbatim>\<open>self.skipWaiting()\<close>, which forces the activation of the waiting version, changes
  no cache and posts no reply; and \<open>performUpdate\<close> of the foreground sends exactly this
  request, without a reply port, to a worker that is installed and waiting.
\<close>

theorem skipWaiting_accepted:
  "handleMessage e \<lparr>action = ascii ''skipWaiting'', manualId = m, files = fs, hasPort = p\<rparr> cs
     = (cs, None, True)
   \<and> performUpdate (st\<lparr>swRegistration := Some \<lparr>active = True, waiting = True\<rparr>,
                        serviceWorkerFailed := False\<rparr>) True
       = [\<lparr>action = ascii ''skipWaiting'', manualId = [], files = None, hasPort = False\<rparr>]
   \<and> list_all (\<lambda>msg. handleMessage e msg cs = (cs, None, True))
        (performUpdate (st\<lparr>swRegistration := Some \<lparr>active = True, waiting = True\<rparr>,
                           serviceWorkerFailed := False\<rparr>) True)"
  by (simp add: handleMessage_def performUpdate_def ascii_def)


section \<open>Properties of the offline coordinator\<close>

subsection \<open>Sets as lists\<close>

lemma set_setAdd: "set (setAdd x s) = insert x (set s)"
  by (auto simp: setAdd_def)

lemma set_newSet_foldl: "set (foldl (\<lambda>s x. setAdd x s) acc xs) = set acc \<union> set xs"
  by (induction xs arbitrary: acc) (auto simp: set_setAdd)

lemma set_newSet: "set (newSet xs) = set xs"
  by (simp add: newSet_def set_newSet_foldl)

lemma newSet_foldl_distinct:
  "distinct (acc @ xs) \<Longrightarrow> foldl (\<lambda>s x. setAdd x s) acc xs = acc @ xs"
  by (induction xs arbitrary: acc) (auto simp: setAdd_def)

lemma newSet_distinct: "distinct xs \<Longrightarrow> newSet xs = xs"
  using newSet_foldl_distinct [of "[]" xs] by (simp add: newSet_def)

subsection \<open>downloadManual\<close>

lemma downloadManual_pending:
  assumes "manual \<in> set (pendingDownloads st)"
  shows "downloadManual_enter st manual = (Some False, st)"
    and "downloadManual st manual fl x writable = (False, st)"
  using assms by (simp_all add: downloadManual_def downloadManual_enter_def)

lemma downloadManual_no_worker:
  assumes "manual \<notin> set (pendingDownloads st)"
    and "serviceWorkerFailed st \<or> swRegistration st = None"
  shows "downloadManual st manual fl x writable
           = (False, st\<lparr>notifications := notifications st @ [OfflineUnavailable]\<rparr>)"
  using assms by (auto simp: downloadManual_def downloadManual_enter_def)

lemma downloadManual_enter_marks_pending:
  assumes "downloadManual_enter st manual = (None, st')"
  shows "manual \<in> set (pendingDownloads st')" and "posted st' = posted st"
  using assms by (auto simp: downloadManual_enter_def set_setAdd split: if_splits)

lemma downloadManual_resume_clears_pending:
  "manual \<notin> set (pendingDownloads (snd (downloadManual_resume st manual fl x writable)))"
  by (auto simp: downloadManual_resume_def sendMessageToSW_def setDelete_def saveOfflineManuals_def
        Let_def split: prod.splits option.splits sum.splits sw_exchange.splits if_splits)

lemma downloadManual_failure_writable:
  assumes "downloadManual st manual fl x True = (False, st')"
  shows "offlineManuals st' = offlineManuals st \<and> localStorage st' = localStorage st"
  using assms
  by (auto simp: downloadManual_def downloadManual_enter_def downloadManual_resume_def
        sendMessageToSW_def saveOfflineManuals_def Let_def
        split: prod.splits option.splits sum.splits sw_exchange.splits if_splits)

lemma readyManager_fields:
  "pendingDownloads readyManager = []" "offlineManuals readyManager = []"
  "localStorage readyManager = Absent" "serviceWorkerFailed readyManager = False"
  "swRegistration readyManager = Some \<lparr>active = True, waiting = False\<rparr>"
  by (simp_all add: readyManager_def constructor_def)

text \<open>
  Claim C7 is right and the code misses a case of it. With a working worker that
  answers the \<open>cache-manual\<close> request with success, and a local storage that rejects the
  write (\<^verbatim>\<open>localStorage.setItem\<close> throws), \<open>downloadManual\<close> has already added the manual
  to the offline set when the exception reaches the \<^verbatim>\<open>catch\<close> block: it returns false,
  the mirror is unchanged, and the offline set is not.
\<close>

theorem downloadManual_storage_failure:
  "fst (downloadManual readyManager (ascii ''HRN113-001'') []
          (Replied (CacheManualOk (ascii ''HRN113-001'') 3)) False) = False
   \<and> offlineManuals readyManager = []
   \<and> offlineManuals (snd (downloadManual readyManager (ascii ''HRN113-001'') []
          (Replied (CacheManualOk (ascii ''HRN113-001'') 3)) False)) = [ascii ''HRN113-001'']
   \<and> localStorage (snd (downloadManual readyManager (ascii ''HRN113-001'') []
          (Replied (CacheManualOk (ascii ''HRN113-001'') 3)) False)) = Absent
   \<and> pendingDownloads (snd (downloadManual readyManager (ascii ''HRN113-001'') []
          (Replied (CacheManualOk (ascii ''HRN113-001'') 3)) False)) = []"
  by (simp add: downloadManual_def downloadManual_enter_def downloadManual_resume_def
        sendMessageToSW_def saveOfflineManuals_def readyManager_fields setAdd_def setDelete_def
        Let_def)

subsection \<open>loadOfflineManuals\<close>

text \<open>
  Claim C8. Persisting the offline set to the local mirror and then reloading the
  coordinator (a fresh coordinator over the same local storage) without worker
  connectivity, that is with no registration, a worker that does not become active, a
  request that times out or a failure reply, yields the same set from the mirror and leaves
  the mirror as it is; reloading with a worker that answers with its list of manuals
  overwrites the in-memory set and the mirror with the identifiers of that list, whatever
  the mirror held before.
\<close>

theorem loadOfflineManuals_roundtrip:
  "saveOfflineManuals True st = Some (st\<lparr>localStorage := ManualsArray (offlineManuals st)\<rparr>)
   \<and> set (offlineManuals (loadOfflineManuals
            (constructor (ManualsArray (offlineManuals st)) None failed) x writable))
       = set (offlineManuals st)
   \<and> set (offlineManuals (loadOfflineManuals
            (constructor (ManualsArray (offlineManuals st)) reg failed) NotAvailable writable))
       = set (offlineManuals st)
   \<and> set (offlineManuals (loadOfflineManuals
            (constructor (ManualsArray (offlineManuals st)) reg failed) Timeout writable))
       = set (offlineManuals st)
   \<and> set (offlineManuals (loadOfflineManuals
            (constructor (ManualsArray (offlineManuals st)) reg failed)
            (Replied (Failure err)) writable))
       = set (offlineManuals st)
   \<and> localStorage (loadOfflineManuals
            (constructor (ManualsArray (offlineManuals st)) reg failed) NotAvailable writable)
       = ManualsArray (offlineManuals st)
   \<and> localStorage (loadOfflineManuals
            (constructor (ManualsArray (offlineManuals st)) reg failed) Timeout writable)
       = ManualsArray (offlineManuals st)
   \<and> localStorage (loadOfflineManuals
            (constructor (ManualsArray (offlineManuals st)) reg failed)
            (Replied (Failure err)) writable)
       = ManualsArray (offlineManuals st)
   \<and> set (offlineManuals (loadOfflineManuals (constructor stored (Some r) failed)
            (Replied (Manuals ms)) True)) = set (map id' ms)
   \<and> localStorage (loadOfflineManuals (constructor stored (Some r) failed)
            (Replied (Manuals ms)) True)
       = ManualsArray (offlineManuals (loadOfflineManuals (constructor stored (Some r) failed)
            (Replied (Manuals ms)) True))"
proof -
  have mirror: "set (offlineManuals (loadOfflineManuals
            (constructor (ManualsArray (offlineManuals st)) reg' failed) x' writable))
       = set (offlineManuals st)
     \<and> localStorage (loadOfflineManuals
            (constructor (ManualsArray (offlineManuals st)) reg' failed) x' writable)
       = ManualsArray (offlineManuals st)"
    if "reg' = None \<or> x' = NotAvailable \<or> x' = Timeout \<or> x' = Replied (Failure err)"
    for reg' x'
    using that
    by (cases reg'; cases x')
       (auto simp: loadOfflineManuals_def constructor_def sendMessageToSW_def set_newSet Let_def)
  have fresh: "set (offlineManuals (loadOfflineManuals (constructor stored (Some r) failed)
            (Replied (Manuals ms)) True)) = set (map id' ms)
     \<and> localStorage (loadOfflineManuals (constructor stored (Some r) failed)
            (Replied (Manuals ms)) True)
       = ManualsArray (offlineManuals (loadOfflineManuals (constructor stored (Some r) failed)
            (Replied (Manuals ms)) True))"
    by (cases stored)
       (simp_all add: loadOfflineManuals_def constructor_def sendMessageToSW_def
          saveOfflineManuals_def set_newSet Let_def)
  show ?thesis
    using mirror [of None x] mirror [of reg NotAvailable] mirror [of reg Timeout]
      mirror [of reg "Replied (Failure err)"] fresh
    by (simp add: saveOfflineManuals_def)
qed

end
